theory Spec2Isabelle
  imports Main
begin

section \<open>Data model\<close>

text \<open>
  \<^verbatim>\<open>BaseItem\<close> (models/base.ts): a payload \<^verbatim>\<open>data\<close> and the rotation fields. An optional
  field that is absent, \<^verbatim>\<open>undefined\<close> or \<^verbatim>\<open>null\<close> (SQL \<^verbatim>\<open>NULL\<close>) is \<open>None\<close>: the
  queries of the code do not tell them apart. The payload type is a parameter: a document
  of the MongoDB variant holds the payload itself, a row of the SQLite variant holds its
  JSON text. \<open>baseItem\<close> is \<^verbatim>\<open>Omit<BaseItem, '_id'>\<close>, \<open>item\<close> a stored document or row
  with its \<^verbatim>\<open>_id\<close> (the \<^verbatim>\<open>id\<close> column).
\<close>

type_synonym userId = string
type_synonym date = nat

record 'd baseItem =
  data :: 'd
  used :: bool
  assignedTo :: "userId option"
  createdBy :: "userId option"
  createdAt :: "date option"

record 'd item = "'d baseItem" +
  itemId :: nat

text \<open>
  A collection (a table) is the list of its documents (rows) in store order, together
  with the supply of fresh identifiers: the driver's ObjectId generator, the
  \<^verbatim>\<open>AUTOINCREMENT\<close> counter of the table. Both engines keep identifiers unique and never
  hand one out twice; \<open>wellFormed\<close> states it.
\<close>

record 'd collection =
  docs :: "'d item list"
  nextId :: nat

definition wellFormed :: "'d collection \<Rightarrow> bool" where
  "wellFormed c = (distinct (map itemId (docs c)) \<and> list_all (\<lambda>d. itemId d < nextId c) (docs c))"

text \<open>The value every operation resolves to: \<^verbatim>\<open>{ success: boolean; data: any }\<close>.\<close>

datatype 'p resultData =
    ItemData 'p
  | ErrorData string
  | InsertedData nat "nat list"
  | ModifiedData nat
  | DeletedData nat

record 'p result =
  success :: bool
  rdata :: "'p resultData"

text \<open>
  What an operation throws: \<^verbatim>\<open>Database not connected\<close> of the SQLite client, and the
  error by which the MongoDB driver rejects \<^verbatim>\<open>insertMany([])\<close> (\<^verbatim>\<open>Invalid BulkOperation,
  Batch cannot be empty\<close>). Every operation catches what is thrown inside it, logs it and
  throws it again.
\<close>

datatype error = NotConnected | EmptyBatch

section \<open>Driver calls\<close>

text \<open>
  The calls of the MongoDB driver and the SQL statements are modelled by their effect on
  the stored documents. \<^verbatim>\<open>insertMany\<close> appends the documents under fresh identifiers;
  the driver rejects an empty list of documents before it reaches the server, and the
  collection stays as it is.
\<close>

definition countDocuments :: "'d collection \<Rightarrow> nat" where
  "countDocuments c = length (docs c)"

definition stored :: "nat \<Rightarrow> 'd baseItem \<Rightarrow> 'd item" where
  "stored i b = \<lparr>data = data b, used = used b, assignedTo = assignedTo b,
                 createdBy = createdBy b, createdAt = createdAt b, itemId = i\<rparr>"

fun insertFrom :: "nat \<Rightarrow> 'd baseItem list \<Rightarrow> 'd item list" where
  "insertFrom n [] = []"
| "insertFrom n (b # bs) = stored n b # insertFrom (Suc n) bs"

definition appended :: "'d collection \<Rightarrow> 'd baseItem list \<Rightarrow> 'd collection" where
  "appended c bs = \<lparr>docs = docs c @ insertFrom (nextId c) bs, nextId = nextId c + length bs\<rparr>"

definition insertMany :: "'d collection \<Rightarrow> 'd baseItem list \<Rightarrow> error + 'd collection" where
  "insertMany c bs = (if bs = [] then Inl EmptyBatch else Inr (appended c bs))"

definition insertedIds :: "'d collection \<Rightarrow> 'd baseItem list \<Rightarrow> nat list" where
  "insertedIds c bs = map itemId (insertFrom (nextId c) bs)"

definition find_docs :: "('d item \<Rightarrow> bool) \<Rightarrow> 'd collection \<Rightarrow> 'd item list" where
  "find_docs P c = filter P (docs c)"

definition findOne :: "('d item \<Rightarrow> bool) \<Rightarrow> 'd collection \<Rightarrow> 'd item option" where
  "findOne P c = List.find P (docs c)"

fun updateFirst :: "('a \<Rightarrow> bool) \<Rightarrow> ('a \<Rightarrow> 'a) \<Rightarrow> 'a list \<Rightarrow> 'a list" where
  "updateFirst P f [] = []"
| "updateFirst P f (x # xs) = (if P x then f x # xs else x # updateFirst P f xs)"

definition updateOne ::
  "('d item \<Rightarrow> bool) \<Rightarrow> ('d item \<Rightarrow> 'd item) \<Rightarrow> 'd collection \<Rightarrow> 'd collection" where
  "updateOne P f c = c\<lparr>docs := updateFirst P f (docs c)\<rparr>"

text \<open>\<^verbatim>\<open>updateMany(filter, { $set })\<close> and \<^verbatim>\<open>UPDATE t SET ... WHERE ...\<close>.\<close>

definition updateMany ::
  "('d item \<Rightarrow> bool) \<Rightarrow> ('d item \<Rightarrow> 'd item) \<Rightarrow> 'd collection \<Rightarrow> 'd collection" where
  "updateMany P f c = c\<lparr>docs := map (\<lambda>d. if P d then f d else d) (docs c)\<rparr>"

definition matchedCount :: "('d item \<Rightarrow> bool) \<Rightarrow> 'd collection \<Rightarrow> nat" where
  "matchedCount P c = length (filter P (docs c))"

text \<open>\<^verbatim>\<open>deleteMany(filter)\<close> and \<^verbatim>\<open>DELETE FROM t WHERE ...\<close>.\<close>

definition deleteMany :: "('d item \<Rightarrow> bool) \<Rightarrow> 'd collection \<Rightarrow> 'd collection" where
  "deleteMany P c = c\<lparr>docs := filter (\<lambda>d. \<not> P d) (docs c)\<rparr>"

text \<open>
  \<^verbatim>\<open>Math.floor(Math.random() * n)\<close> is some index below \<open>n\<close>. The outcome of the draw is an
  argument \<open>rnd\<close> of the model, read modulo \<open>n\<close>: every \<open>rnd\<close> is a possible draw and every
  index below \<open>n\<close> is the outcome of one. \<^verbatim>\<open>ORDER BY RANDOM() LIMIT 1\<close> is the same draw
  among the rows the \<^verbatim>\<open>WHERE\<close> clause keeps.
\<close>

definition randomIndex :: "nat \<Rightarrow> nat \<Rightarrow> nat" where
  "randomIndex rnd n = rnd mod n"

definition selectRandom :: "('d item \<Rightarrow> bool) \<Rightarrow> nat \<Rightarrow> 'd collection \<Rightarrow> 'd item option" where
  "selectRandom P rnd t =
     (let rows = filter P (docs t)
      in if rows = [] then None else Some (rows ! randomIndex rnd (length rows)))"

text \<open>
  \<^verbatim>\<open>INSERT INTO t (data, used, createdBy, createdAt)\<close>: one row, \<^verbatim>\<open>assignedTo\<close> left
  \<^verbatim>\<open>NULL\<close>. The seeding statements name only \<^verbatim>\<open>data\<close> and \<^verbatim>\<open>used\<close>, so \<^verbatim>\<open>createdBy\<close> is
  \<^verbatim>\<open>NULL\<close> and \<^verbatim>\<open>createdAt\<close> takes its default \<^verbatim>\<open>CURRENT_TIMESTAMP\<close>.
\<close>

definition insertRow ::
  "'t collection \<Rightarrow> 't \<Rightarrow> bool \<Rightarrow> userId option \<Rightarrow> date \<Rightarrow> 't collection" where
  "insertRow t text u creator now =
     \<lparr>docs = docs t @ [\<lparr>data = text, used = u, assignedTo = None, createdBy = creator,
                          createdAt = Some now, itemId = nextId t\<rparr>],
      nextId = Suc (nextId t)\<rparr>"

section \<open>operations.ts, first revision (MongoDB only)\<close>

text \<open>\<open>collectionName\<close> is \<^verbatim>\<open>collection.collectionName\<close>.\<close>

definition getItemFromCollection_v1 ::
  "'p collection \<Rightarrow> string \<Rightarrow> userId \<Rightarrow> 'p baseItem list \<Rightarrow>
   (error + 'p result) \<times> 'p collection" where
  "getItemFromCollection_v1 collection collectionName userId sampleData =
     (case (if countDocuments collection = 0
            then insertMany collection sampleData else Inr collection) of
        Inl e \<Rightarrow> (Inl e, collection)
      | Inr collection \<Rightarrow>
          (case findOne (\<lambda>d. used d = False \<and> assignedTo d \<noteq> Some userId) collection of
             Some item \<Rightarrow>
               (Inr \<lparr>success = True, rdata = ItemData (data item)\<rparr>,
                updateOne (\<lambda>d. itemId d = itemId item)
                  (\<lambda>d. d\<lparr>used := True, assignedTo := Some userId\<rparr>) collection)
           | None \<Rightarrow>
               (let collection = updateMany (\<lambda>d. True)
                                   (\<lambda>d. d\<lparr>used := False, assignedTo := None\<rparr>) collection
                in case findOne (\<lambda>d. True) collection of
                     Some resetItem \<Rightarrow>
                       (Inr \<lparr>success = True, rdata = ItemData (data resetItem)\<rparr>,
                        updateOne (\<lambda>d. itemId d = itemId resetItem)
                          (\<lambda>d. d\<lparr>used := True, assignedTo := Some userId\<rparr>) collection)
                   | None \<Rightarrow>
                       (Inr \<lparr>success = False,
                            rdata = ErrorData (''No '' @ collectionName @ '' available'')\<rparr>,
                        collection))))"

definition createItems_v1 ::
  "'p collection \<Rightarrow> userId \<Rightarrow> 'p list \<Rightarrow> date \<Rightarrow> (error + 'p result) \<times> 'p collection" where
  "createItems_v1 collection userId items now =
     (let itemsToInsert = map (\<lambda>item. \<lparr>data = item, used = False, assignedTo = None,
                                       createdBy = Some userId, createdAt = Some now\<rparr>) items
      in case insertMany collection itemsToInsert of
           Inl e \<Rightarrow> (Inl e, collection)
         | Inr collection' \<Rightarrow>
             (Inr \<lparr>success = True,
                  rdata = InsertedData (length itemsToInsert)
                            (insertedIds collection itemsToInsert)\<rparr>,
              collection'))"

section \<open>The callbacks under \<^verbatim>\<open>Promise.all\<close>\<close>

text \<open>
  \<^verbatim>\<open>CollectionConfig\<close> is the pair of \<^verbatim>\<open>name\<close> and \<^verbatim>\<open>sampleData\<close>.
\<close>

type_synonym 'p collectionConfig = "string \<times> 'p baseItem list"

text \<open>
  \<^verbatim>\<open>initializeCollections\<close> starts one async callback per configuration and awaits them
  all. A callback runs up to its next \<^verbatim>\<open>await\<close>; the other callbacks run in between, so
  two callbacks that name the same collection can both read the count 0 before either
  inserts. A callback is modelled by the call it awaits next, with the collection name and
  the documents (rows) it has still to insert: \<^verbatim>\<open>countDocuments\<close> and \<^verbatim>\<open>insertMany\<close> for a
  MongoDB collection; \<^verbatim>\<open>SELECT COUNT\<close>, \<^verbatim>\<open>prepare\<close> and one \<^verbatim>\<open>stmt.run\<close> per sample item for
  a SQLite table.
\<close>

datatype 'd callback =
    AwaitCountDocuments string "'d baseItem list"
  | AwaitInsertMany string "'d baseItem list"
  | AwaitSelectCount string "'d baseItem list"
  | AwaitPrepare string "'d baseItem list"
  | AwaitRun string "'d baseItem list"

text \<open>
  \<open>resume\<close> runs a callback from the call it awaits to its next \<^verbatim>\<open>await\<close>: the call takes
  effect on the collection as it is then, and the callback goes on (\<open>Inr (Some _)\<close>), returns
  (\<open>Inr None\<close>) or throws (\<open>Inl\<close>).
\<close>

fun resume ::
  "'d callback \<Rightarrow> (string \<Rightarrow> 'd collection) \<Rightarrow>
   (error + 'd callback option) \<times> (string \<Rightarrow> 'd collection)" where
  "resume (AwaitCountDocuments name sampleData) db =
     (Inr (if countDocuments (db name) = 0 then Some (AwaitInsertMany name sampleData) else None),
      db)"
| "resume (AwaitInsertMany name sampleData) db =
     (case insertMany (db name) sampleData of
        Inl e \<Rightarrow> (Inl e, db)
      | Inr collection \<Rightarrow> (Inr None, db(name := collection)))"
| "resume (AwaitSelectCount name rows) db =
     (Inr (if countDocuments (db name) = 0 then Some (AwaitPrepare name rows) else None), db)"
| "resume (AwaitPrepare name rows) db =
     (Inr (if rows = [] then None else Some (AwaitRun name rows)), db)"
| "resume (AwaitRun name []) db = (Inr None, db)"
| "resume (AwaitRun name (row # rows)) db =
     (Inr (if rows = [] then None else Some (AwaitRun name rows)),
      db(name := appended (db name) [row]))"

text \<open>The calls a callback may still await: the measure by which \<open>settle\<close> terminates.\<close>

fun awaits :: "'d callback \<Rightarrow> nat" where
  "awaits (AwaitCountDocuments name sampleData) = 2"
| "awaits (AwaitInsertMany name sampleData) = 1"
| "awaits (AwaitSelectCount name rows) = length rows + 3"
| "awaits (AwaitPrepare name rows) = length rows + 2"
| "awaits (AwaitRun name rows) = length rows + 1"

text \<open>
  Which pending callback runs next is decided by the event loop and the database. It is
  an argument of the model, the \<open>schedule\<close>: a list of numbers, each read modulo the number
  of pending callbacks (and 0 when the list is used up), so every list is a schedule and
  every order of the awaited calls is the order of one. \<open>advance\<close> resumes the callback
  whose turn it is; \<open>settle\<close> goes on until every callback has returned or thrown, and
  keeps the first error thrown, with which \<^verbatim>\<open>Promise.all\<close> rejects.
\<close>

definition turn :: "nat list \<Rightarrow> nat \<Rightarrow> nat" where
  "turn schedule n = (case schedule of [] \<Rightarrow> 0 | i # later \<Rightarrow> i mod n)"

definition advance ::
  "nat \<Rightarrow> 'd callback list \<Rightarrow> (string \<Rightarrow> 'd collection) \<Rightarrow> error option \<Rightarrow>
   'd callback list \<times> (string \<Rightarrow> 'd collection) \<times> error option" where
  "advance i pending db rejection =
     (case resume (pending ! i) db of
        (Inl e, db') \<Rightarrow>
          (take i pending @ drop (Suc i) pending, db',
           (case rejection of None \<Rightarrow> Some e | Some first \<Rightarrow> Some first))
      | (Inr None, db') \<Rightarrow> (take i pending @ drop (Suc i) pending, db', rejection)
      | (Inr (Some callback), db') \<Rightarrow> (pending[i := callback], db', rejection))"

function settle ::
  "'d callback list \<Rightarrow> (string \<Rightarrow> 'd collection) \<Rightarrow> error option \<Rightarrow> nat list \<Rightarrow>
   error option \<times> (string \<Rightarrow> 'd collection)" where
  "settle pending db rejection schedule =
     (if pending = [] then (rejection, db)
      else (case advance (turn schedule (length pending)) pending db rejection of
              (pending', db', rejection') \<Rightarrow> settle pending' db' rejection' (tl schedule)))"
  by pat_completeness auto
termination
proof (relation "measure (\<lambda>(pending, db, rejection, schedule). sum_list (map awaits pending))")
  show "wf (measure (\<lambda>(pending, db, rejection, schedule). sum_list (map awaits pending)))"
    by simp
next
  fix pending :: "'d callback list" and db :: "string \<Rightarrow> 'd collection"
    and rejection :: "error option" and schedule :: "nat list"
    and pending' :: "'d callback list"
    and y :: "(string \<Rightarrow> 'd collection) \<times> error option"
    and db' :: "string \<Rightarrow> 'd collection" and rejection' :: "error option"
  assume ne: "pending \<noteq> []"
    and x: "(pending', y) = advance (turn schedule (length pending)) pending db rejection"
    and z: "(db', rejection') = y"
  define i where "i = turn schedule (length pending)"
  from ne have i: "i < length pending"
    by (simp add: i_def turn_def split: list.splits)
  have shorter: "awaits c' < awaits (pending ! i)"
    if "fst (resume (pending ! i) db) = Inr (Some c')" for c'
    using that by (cases "(pending ! i, db)" rule: resume.cases)
      (auto simp: insertMany_def split: if_splits)
  have pos: "0 < awaits c" for c :: "'d callback"
    by (cases c) simp_all
  have whole: "sum_list (map awaits pending) =
      sum_list (map awaits (take i pending)) + awaits (pending ! i) +
      sum_list (map awaits (drop (Suc i) pending))"
    using arg_cong[OF id_take_nth_drop[OF i], of "\<lambda>xs. sum_list (map awaits xs)"] by simp
  have upd: "sum_list (map awaits (pending[i := c'])) =
      sum_list (map awaits (take i pending)) + awaits c' +
      sum_list (map awaits (drop (Suc i) pending))" for c'
    using i by (simp add: upd_conv_take_nth_drop)
  have "sum_list (map awaits (fst (advance i pending db rejection))) < sum_list (map awaits pending)"
    unfolding advance_def whole
    using shorter pos[of "pending ! i"] upd
    by (auto split: prod.splits sum.splits option.splits)
  with x show "((pending', db', rejection', tl schedule), (pending, db, rejection, schedule))
        \<in> measure (\<lambda>(pending, db, rejection, schedule). sum_list (map awaits pending))"
    by (simp add: i_def[symmetric]) (metis fst_conv)
qed

declare settle.simps [simp del]

definition promiseAll ::
  "'d callback list \<Rightarrow> (string \<Rightarrow> 'd collection) \<Rightarrow> nat list \<Rightarrow>
   (error + unit) \<times> (string \<Rightarrow> 'd collection)" where
  "promiseAll callbacks db schedule =
     (case settle callbacks db None schedule of
        (None, db') \<Rightarrow> (Inr (), db')
      | (Some e, db') \<Rightarrow> (Inl e, db'))"

text \<open>
  \<^verbatim>\<open>initializeCollections\<close> of the first revision: one callback per configuration, each
  starting at \<^verbatim>\<open>countDocuments\<close>. The result is \<open>Inl\<close> when \<^verbatim>\<open>Promise.all\<close> rejects (the
  \<^verbatim>\<open>catch\<close> block logs and throws again); the callbacks that had not thrown run on all the
  same, and the database returned is the one they leave.
\<close>

definition initializeCollections_v1 ::
  "(string \<Rightarrow> 'p collection) \<Rightarrow> 'p collectionConfig list \<Rightarrow> nat list \<Rightarrow>
   (error + unit) \<times> (string \<Rightarrow> 'p collection)" where
  "initializeCollections_v1 db collections schedule =
     promiseAll (map (\<lambda>(name, sampleData). AwaitCountDocuments name sampleData) collections)
       db schedule"

section \<open>database.ts: the two clients\<close>

text \<open>
  \<open>MongoDBClient\<close> holds its flag and the driver's client, whose database is the map from
  collection names to collections. \<open>SQLiteClient\<close> holds \<^verbatim>\<open>db: Database | null\<close>; an open
  database is the map from table names to tables. \<^verbatim>\<open>getCollection\<close> resolves to a
  \<^verbatim>\<open>Collection\<close> of the driver or to the \<^verbatim>\<open>Database\<close>, which the operations tell apart
  by \<^verbatim>\<open>instanceof\<close>.
\<close>

datatype 'p client =
    MongoDBClient (isConnectedFlag: bool) (mongo: "string \<Rightarrow> 'p collection")
  | SQLiteClient (db: "(string \<Rightarrow> string collection) option")

datatype 'p handle =
    Collection "'p collection"
  | Database "string \<Rightarrow> string collection"

text \<open>
  The constructors leave the client unconnected. \<^verbatim>\<open>connect\<close> of the SQLite client opens
  the database file, whose tables are the argument \<open>file\<close> here.
\<close>

definition newMongoDBClient :: "(string \<Rightarrow> 'p collection) \<Rightarrow> 'p client" where
  "newMongoDBClient server = MongoDBClient False server"

definition newSQLiteClient :: "'p client" where
  "newSQLiteClient = SQLiteClient None"

fun connect :: "(string \<Rightarrow> string collection) \<Rightarrow> 'p client \<Rightarrow> 'p client" where
  "connect file (MongoDBClient flag server) = MongoDBClient True server"
| "connect file (SQLiteClient d) = SQLiteClient (Some file)"

fun disconnect :: "'p client \<Rightarrow> 'p client" where
  "disconnect (MongoDBClient flag server) = MongoDBClient False server"
| "disconnect (SQLiteClient d) = SQLiteClient None"

fun isConnected :: "'p client \<Rightarrow> bool" where
  "isConnected (MongoDBClient flag server) = flag"
| "isConnected (SQLiteClient d) = (d \<noteq> None)"

fun getCollection :: "'p client \<Rightarrow> string \<Rightarrow> error + 'p handle" where
  "getCollection (MongoDBClient flag server) name = Inr (Collection (server name))"
| "getCollection (SQLiteClient None) name = Inl NotConnected"
| "getCollection (SQLiteClient (Some d)) name = Inr (Database d)"

section \<open>operations.ts, second revision (either client)\<close>

text \<open>
  Each operation asks the client for the collection and branches on what it gets. The two
  branches are separate definitions here, followed by the operation that dispatches to
  them and writes the collection back. \<^verbatim>\<open>JSON.stringify\<close> and \<^verbatim>\<open>JSON.parse\<close> are arguments
  of the SQLite branches.
\<close>

definition getItemFromCollection_mongo ::
  "'p collection \<Rightarrow> string \<Rightarrow> userId \<Rightarrow> 'p baseItem list \<Rightarrow> nat \<Rightarrow>
   (error + 'p result) \<times> 'p collection" where
  "getItemFromCollection_mongo collection collectionName userId sampleData rnd =
     (case (if countDocuments collection = 0
            then insertMany collection sampleData else Inr collection) of
        Inl e \<Rightarrow> (Inl e, collection)
      | Inr collection \<Rightarrow>
          (let items = find_docs (\<lambda>d. used d = False \<and> assignedTo d \<noteq> Some userId) collection
           in if length items > 0
              then (let item = items ! randomIndex rnd (length items)
                    in (Inr \<lparr>success = True, rdata = ItemData (data item)\<rparr>,
                        updateOne (\<lambda>d. itemId d = itemId item)
                          (\<lambda>d. d\<lparr>used := True, assignedTo := Some userId\<rparr>) collection))
              else (let collection = updateMany (\<lambda>d. True)
                                       (\<lambda>d. d\<lparr>used := False, assignedTo := None\<rparr>) collection;
                        resetItems = find_docs (\<lambda>d. True) collection
                    in if length resetItems > 0
                       then (let item = resetItems ! randomIndex rnd (length resetItems)
                             in (Inr \<lparr>success = True, rdata = ItemData (data item)\<rparr>,
                                 updateOne (\<lambda>d. itemId d = itemId item)
                                   (\<lambda>d. d\<lparr>used := True, assignedTo := Some userId\<rparr>)
                                   collection))
                       else (Inr \<lparr>success = False,
                                 rdata = ErrorData (''No '' @ collectionName @ '' available'')\<rparr>,
                             collection))))"

text \<open>
  A row of a SQLite table holds the JSON text of its payload. The branches do not look
  into the text, so its type \<open>'t\<close> is a parameter: a string at the clients.
\<close>

definition getItemFromCollection_sqlite ::
  "('p \<Rightarrow> 't) \<Rightarrow> ('t \<Rightarrow> 'p) \<Rightarrow> 't collection \<Rightarrow> string \<Rightarrow> userId \<Rightarrow>
   'p baseItem list \<Rightarrow> nat \<Rightarrow> date \<Rightarrow> 'p result \<times> 't collection" where
  "getItemFromCollection_sqlite JSON_stringify JSON_parse table collectionName userId
     sampleData rnd now =
     (let table = (if countDocuments table = 0
                   then foldl (\<lambda>t item. insertRow t (JSON_stringify (data item)) False None now)
                          table sampleData
                   else table)
      in case selectRandom (\<lambda>row. used row = False \<and>
                                   (assignedTo row = None \<or> assignedTo row \<noteq> Some userId))
                rnd table of
           Some item \<Rightarrow>
             (\<lparr>success = True, rdata = ItemData (JSON_parse (data item))\<rparr>,
              updateMany (\<lambda>row. itemId row = itemId item)
                (\<lambda>row. row\<lparr>used := True, assignedTo := Some userId\<rparr>) table)
         | None \<Rightarrow>
             (let table = updateMany (\<lambda>row. True)
                            (\<lambda>row. row\<lparr>used := False, assignedTo := None\<rparr>) table
              in case selectRandom (\<lambda>row. True) rnd table of
                   Some resetItem \<Rightarrow>
                     (\<lparr>success = True, rdata = ItemData (JSON_parse (data resetItem))\<rparr>,
                      updateMany (\<lambda>row. itemId row = itemId resetItem)
                        (\<lambda>row. row\<lparr>used := True, assignedTo := Some userId\<rparr>) table)
                 | None \<Rightarrow>
                     (\<lparr>success = False,
                       rdata = ErrorData (''No '' @ collectionName @ '' available'')\<rparr>,
                      table)))"

text \<open>
  The operation itself. The result is \<open>Inl\<close> when \<^verbatim>\<open>getCollection\<close> or a call of the
  branch throws (the \<^verbatim>\<open>catch\<close> block logs and throws again), and the client is returned
  with the collection as the branch left it.
\<close>

definition getItemFromCollection ::
  "('p \<Rightarrow> string) \<Rightarrow> (string \<Rightarrow> 'p) \<Rightarrow> 'p client \<Rightarrow> string \<Rightarrow> userId \<Rightarrow>
   'p baseItem list \<Rightarrow> nat \<Rightarrow> date \<Rightarrow> (error + 'p result) \<times> 'p client" where
  "getItemFromCollection JSON_stringify JSON_parse client collectionName userId sampleData
     rnd now =
     (case getCollection client collectionName of
        Inl e \<Rightarrow> (Inl e, client)
      | Inr (Collection collection) \<Rightarrow>
          (let (r, collection') =
                 getItemFromCollection_mongo collection collectionName userId sampleData rnd
           in (r, MongoDBClient (isConnectedFlag client)
                    ((mongo client)(collectionName := collection'))))
      | Inr (Database d) \<Rightarrow>
          (let (r, table') =
                 getItemFromCollection_sqlite JSON_stringify JSON_parse (d collectionName)
                   collectionName userId sampleData rnd now
           in (Inr r, SQLiteClient (Some (d(collectionName := table'))))))"

definition createItems_mongo ::
  "'p collection \<Rightarrow> userId \<Rightarrow> 'p list \<Rightarrow> date \<Rightarrow> (error + 'p result) \<times> 'p collection" where
  "createItems_mongo collection userId items now =
     (let itemsToInsert = map (\<lambda>item. \<lparr>data = item, used = False, assignedTo = None,
                                       createdBy = Some userId, createdAt = Some now\<rparr>) items
      in case insertMany collection itemsToInsert of
           Inl e \<Rightarrow> (Inl e, collection)
         | Inr collection' \<Rightarrow>
             (Inr \<lparr>success = True,
                  rdata = InsertedData (length itemsToInsert)
                            (insertedIds collection itemsToInsert)\<rparr>,
              collection'))"

text \<open>
  The SQLite loop inserts row by row and collects \<^verbatim>\<open>result.lastID\<close>, the identifier of
  the row just inserted.
\<close>

fun createItems_sqlite_loop ::
  "('p \<Rightarrow> 't) \<Rightarrow> userId \<Rightarrow> date \<Rightarrow> 'p list \<Rightarrow> nat list \<times> 't collection \<Rightarrow>
   nat list \<times> 't collection" where
  "createItems_sqlite_loop JSON_stringify userId now [] (results, table) = (results, table)"
| "createItems_sqlite_loop JSON_stringify userId now (item # items) (results, table) =
     createItems_sqlite_loop JSON_stringify userId now items
       (results @ [nextId table],
        insertRow table (JSON_stringify item) False (Some userId) now)"

definition createItems_sqlite ::
  "('p \<Rightarrow> 't) \<Rightarrow> 't collection \<Rightarrow> userId \<Rightarrow> 'p list \<Rightarrow> date \<Rightarrow>
   'p result \<times> 't collection" where
  "createItems_sqlite JSON_stringify table userId items now =
     (let (results, table') = createItems_sqlite_loop JSON_stringify userId now items ([], table)
      in (\<lparr>success = True, rdata = InsertedData (length results) results\<rparr>, table'))"

definition createItems ::
  "('p \<Rightarrow> string) \<Rightarrow> 'p client \<Rightarrow> string \<Rightarrow> userId \<Rightarrow> 'p list \<Rightarrow> date \<Rightarrow>
   (error + 'p result) \<times> 'p client" where
  "createItems JSON_stringify client collectionName userId items now =
     (case getCollection client collectionName of
        Inl e \<Rightarrow> (Inl e, client)
      | Inr (Collection collection) \<Rightarrow>
          (let (r, collection') = createItems_mongo collection userId items now
           in (r, MongoDBClient (isConnectedFlag client)
                    ((mongo client)(collectionName := collection'))))
      | Inr (Database d) \<Rightarrow>
          (let (r, table') =
                 createItems_sqlite JSON_stringify (d collectionName) userId items now
           in (Inr r, SQLiteClient (Some (d(collectionName := table'))))))"

text \<open>
  The two branches of a callback of \<^verbatim>\<open>initializeCollections\<close>, run from start to end
  with no other callback in between. The SQLite statement names \<^verbatim>\<open>data\<close> and \<^verbatim>\<open>used\<close>
  only, and writes \<^verbatim>\<open>FALSE\<close> for \<^verbatim>\<open>used\<close>.
\<close>

definition initializeCollections_mongo ::
  "'p collection \<Rightarrow> 'p baseItem list \<Rightarrow> (error + unit) \<times> 'p collection" where
  "initializeCollections_mongo collection sampleData =
     (if countDocuments collection = 0
      then (case insertMany collection sampleData of
              Inl e \<Rightarrow> (Inl e, collection)
            | Inr collection' \<Rightarrow> (Inr (), collection'))
      else (Inr (), collection))"

definition initializeCollections_sqlite ::
  "('p \<Rightarrow> 't) \<Rightarrow> 't collection \<Rightarrow> 'p baseItem list \<Rightarrow> date \<Rightarrow> 't collection" where
  "initializeCollections_sqlite JSON_stringify table sampleData now =
     (if countDocuments table = 0
      then foldl (\<lambda>t item. insertRow t (JSON_stringify (data item)) False None now)
             table sampleData
      else table)"

text \<open>The row the SQLite seeding statement writes for a sample item.\<close>

definition sqlSeed :: "('p \<Rightarrow> 't) \<Rightarrow> date \<Rightarrow> 'p baseItem \<Rightarrow> 't baseItem" where
  "sqlSeed JSON_stringify now item =
     \<lparr>data = JSON_stringify (data item), used = False, assignedTo = None,
      createdBy = None, createdAt = Some now\<rparr>"

text \<open>
  \<^verbatim>\<open>initializeCollections\<close>: the callbacks of all configurations under \<^verbatim>\<open>Promise.all\<close>.
  Every callback first awaits \<^verbatim>\<open>client.getCollection(name)\<close>. No callback changes the
  client, so this resolves alike for all of them: to a collection of the MongoDB client,
  where the callback goes on to \<^verbatim>\<open>countDocuments\<close>; to the database of a connected SQLite
  client, where it goes on to \<^verbatim>\<open>SELECT COUNT\<close> with the rows of its sample items to write;
  and it throws in every callback of an unconnected SQLite client.
\<close>

definition initializeCollections ::
  "('p \<Rightarrow> string) \<Rightarrow> date \<Rightarrow> 'p client \<Rightarrow> 'p collectionConfig list \<Rightarrow> nat list \<Rightarrow>
   (error + unit) \<times> 'p client" where
  "initializeCollections JSON_stringify now client collections schedule =
     (case client of
        MongoDBClient flag server \<Rightarrow>
          (let (r, server') =
                 promiseAll
                   (map (\<lambda>(name, sampleData). AwaitCountDocuments name sampleData) collections)
                   server schedule
           in (r, MongoDBClient flag server'))
      | SQLiteClient None \<Rightarrow>
          (if collections = [] then Inr () else Inl NotConnected, SQLiteClient None)
      | SQLiteClient (Some d) \<Rightarrow>
          (let (r, d') =
                 promiseAll
                   (map (\<lambda>(name, sampleData).
                           AwaitSelectCount name (map (sqlSeed JSON_stringify now) sampleData))
                      collections)
                   d schedule
           in (r, SQLiteClient (Some d'))))"

text \<open>\<^verbatim>\<open>markAllItemsAsUsed\<close>: both branches update the items with \<^verbatim>\<open>used = false\<close>.\<close>

definition markAllItemsAsUsed_mongo :: "'d collection \<Rightarrow> 'p result \<times> 'd collection" where
  "markAllItemsAsUsed_mongo collection =
     (\<lparr>success = True, rdata = ModifiedData (matchedCount (\<lambda>d. used d = False) collection)\<rparr>,
      updateMany (\<lambda>d. used d = False) (\<lambda>d. d\<lparr>used := True\<rparr>) collection)"

definition markAllItemsAsUsed_sqlite :: "'t collection \<Rightarrow> 'p result \<times> 't collection" where
  "markAllItemsAsUsed_sqlite table =
     (\<lparr>success = True, rdata = ModifiedData (matchedCount (\<lambda>row. used row = False) table)\<rparr>,
      updateMany (\<lambda>row. used row = False) (\<lambda>row. row\<lparr>used := True\<rparr>) table)"

definition markAllItemsAsUsed ::
  "'p client \<Rightarrow> string \<Rightarrow> (error + 'p result) \<times> 'p client" where
  "markAllItemsAsUsed client collectionName =
     (case getCollection client collectionName of
        Inl e \<Rightarrow> (Inl e, client)
      | Inr (Collection collection) \<Rightarrow>
          (let (r, collection') = markAllItemsAsUsed_mongo collection
           in (Inr r, MongoDBClient (isConnectedFlag client)
                        ((mongo client)(collectionName := collection'))))
      | Inr (Database d) \<Rightarrow>
          (let (r, table') = markAllItemsAsUsed_sqlite (d collectionName)
           in (Inr r, SQLiteClient (Some (d(collectionName := table'))))))"

text \<open>
  \<^verbatim>\<open>deleteItemsByUser\<close>: \<^verbatim>\<open>{ createdBy: userId }\<close> and \<^verbatim>\<open>WHERE createdBy = ?\<close> match the
  items whose \<^verbatim>\<open>createdBy\<close> is that string; an absent or \<^verbatim>\<open>NULL\<close> \<^verbatim>\<open>createdBy\<close> matches no
  string.
\<close>

definition deleteItemsByUser_mongo ::
  "'d collection \<Rightarrow> userId \<Rightarrow> 'p result \<times> 'd collection" where
  "deleteItemsByUser_mongo collection userId =
     (\<lparr>success = True,
       rdata = DeletedData (matchedCount (\<lambda>d. createdBy d = Some userId) collection)\<rparr>,
      deleteMany (\<lambda>d. createdBy d = Some userId) collection)"

definition deleteItemsByUser_sqlite ::
  "'t collection \<Rightarrow> userId \<Rightarrow> 'p result \<times> 't collection" where
  "deleteItemsByUser_sqlite table userId =
     (\<lparr>success = True,
       rdata = DeletedData (matchedCount (\<lambda>row. createdBy row = Some userId) table)\<rparr>,
      deleteMany (\<lambda>row. createdBy row = Some userId) table)"

definition deleteItemsByUser ::
  "'p client \<Rightarrow> string \<Rightarrow> userId \<Rightarrow> (error + 'p result) \<times> 'p client" where
  "deleteItemsByUser client collectionName userId =
     (case getCollection client collectionName of
        Inl e \<Rightarrow> (Inl e, client)
      | Inr (Collection collection) \<Rightarrow>
          (let (r, collection') = deleteItemsByUser_mongo collection userId
           in (Inr r, MongoDBClient (isConnectedFlag client)
                        ((mongo client)(collectionName := collection'))))
      | Inr (Database d) \<Rightarrow>
          (let (r, table') = deleteItemsByUser_sqlite (d collectionName) userId
           in (Inr r, SQLiteClient (Some (d(collectionName := table'))))))"

section \<open>Sample data (models/question.ts)\<close>

record questionData =
  message :: string

definition questionSampleData :: "questionData baseItem list" where
  "questionSampleData =
     [\<lparr>data = \<lparr>message = ''Question 1''\<rparr>, used = False, assignedTo = None,
       createdBy = None, createdAt = None\<rparr>,
      \<lparr>data = \<lparr>message = ''Question 2''\<rparr>, used = False, assignedTo = None,
       createdBy = None, createdAt = None\<rparr>,
      \<lparr>data = \<lparr>message = ''Question 3''\<rparr>, used = False, assignedTo = None,
       createdBy = None, createdAt = None\<rparr>]"

section \<open>JSON.stringify and JSON.parse\<close>











section \<open>Histories of one collection\<close>

text \<open>
  The item an acquire call selects: the selection of the operation without its writes.
\<close>

definition selectedItem_mongo ::
  "'p collection \<Rightarrow> userId \<Rightarrow> 'p baseItem list \<Rightarrow> nat \<Rightarrow> 'p item option" where
  "selectedItem_mongo collection userId sampleData rnd =
     (case (if countDocuments collection = 0
            then insertMany collection sampleData else Inr collection) of
        Inl e \<Rightarrow> None
      | Inr collection \<Rightarrow>
          (let items = find_docs (\<lambda>d. used d = False \<and> assignedTo d \<noteq> Some userId) collection
           in if length items > 0
              then Some (items ! randomIndex rnd (length items))
              else (let collection = updateMany (\<lambda>d. True)
                                       (\<lambda>d. d\<lparr>used := False, assignedTo := None\<rparr>) collection;
                        resetItems = find_docs (\<lambda>d. True) collection
                    in if length resetItems > 0
                       then Some (resetItems ! randomIndex rnd (length resetItems))
                       else None)))"

definition selectedItem_sqlite ::
  "('p \<Rightarrow> 't) \<Rightarrow> 't collection \<Rightarrow> userId \<Rightarrow> 'p baseItem list \<Rightarrow> nat \<Rightarrow> date \<Rightarrow>
   't item option" where
  "selectedItem_sqlite JSON_stringify table userId sampleData rnd now =
     (let table = (if countDocuments table = 0
                   then foldl (\<lambda>t item. insertRow t (JSON_stringify (data item)) False None now)
                          table sampleData
                   else table)
      in case selectRandom (\<lambda>row. used row = False \<and>
                                   (assignedTo row = None \<or> assignedTo row \<noteq> Some userId))
                rnd table of
           Some item \<Rightarrow> Some item
         | None \<Rightarrow>
             (let table = updateMany (\<lambda>row. True)
                            (\<lambda>row. row\<lparr>used := False, assignedTo := None\<rparr>) table
              in selectRandom (\<lambda>row. True) rnd table))"

text \<open>
  The operations on one collection, with their arguments: the user, the sample data, the
  items, the random draw and the time of the call. \<open>InitializeCollections\<close> is the callback
  of \<^verbatim>\<open>initializeCollections\<close> for this collection. An operation that throws leaves the
  collection as it is.
\<close>

datatype 'p operation =
    GetItem userId "'p baseItem list" nat date
  | CreateItems userId "'p list" date
  | InitializeCollections "'p baseItem list" date
  | MarkAllItemsAsUsed
  | DeleteItemsByUser userId

fun step_mongo :: "string \<Rightarrow> 'p operation \<Rightarrow> 'p collection \<Rightarrow> 'p collection" where
  "step_mongo name (GetItem userId sampleData rnd now) c =
     snd (getItemFromCollection_mongo c name userId sampleData rnd)"
| "step_mongo name (CreateItems userId items now) c = snd (createItems_mongo c userId items now)"
| "step_mongo name (InitializeCollections sampleData now) c =
     snd (initializeCollections_mongo c sampleData)"
| "step_mongo name MarkAllItemsAsUsed c =
     snd (markAllItemsAsUsed_mongo c :: 'p result \<times> 'p collection)"
| "step_mongo name (DeleteItemsByUser userId) c =
     snd (deleteItemsByUser_mongo c userId :: 'p result \<times> 'p collection)"

fun step_sqlite ::
  "('p \<Rightarrow> 't) \<Rightarrow> ('t \<Rightarrow> 'p) \<Rightarrow> string \<Rightarrow> 'p operation \<Rightarrow> 't collection \<Rightarrow>
   't collection" where
  "step_sqlite JSON_stringify JSON_parse name (GetItem userId sampleData rnd now) t =
     snd (getItemFromCollection_sqlite JSON_stringify JSON_parse t name userId sampleData rnd now)"
| "step_sqlite JSON_stringify JSON_parse name (CreateItems userId items now) t =
     snd (createItems_sqlite JSON_stringify t userId items now :: 'p result \<times> 't collection)"
| "step_sqlite JSON_stringify JSON_parse name (InitializeCollections sampleData now) t =
     initializeCollections_sqlite JSON_stringify t sampleData now"
| "step_sqlite JSON_stringify JSON_parse name MarkAllItemsAsUsed t =
     snd (markAllItemsAsUsed_sqlite t :: 'p result \<times> 't collection)"
| "step_sqlite JSON_stringify JSON_parse name (DeleteItemsByUser userId) t =
     snd (deleteItemsByUser_sqlite t userId :: 'p result \<times> 't collection)"

text \<open>
  What a history remembers beside the collection: under each identifier the payload that
  was inserted with it, and the user of the last acquire call that selected it.
\<close>

record 'p history =
  inserted :: "nat \<Rightarrow> 'p option"
  assigner :: "nat \<Rightarrow> userId option"

definition noHistory :: "'p history" where
  "noHistory = \<lparr>inserted = (\<lambda>i. None), assigner = (\<lambda>i. None)\<rparr>"

fun insertedPayloads :: "'p operation \<Rightarrow> 'd collection \<Rightarrow> 'p list" where
  "insertedPayloads (GetItem userId sampleData rnd now) c =
     (if countDocuments c = 0 then map data sampleData else [])"
| "insertedPayloads (CreateItems userId items now) c = items"
| "insertedPayloads (InitializeCollections sampleData now) c =
     (if countDocuments c = 0 then map data sampleData else [])"
| "insertedPayloads MarkAllItemsAsUsed c = []"
| "insertedPayloads (DeleteItemsByUser userId) c = []"

definition recordInserted :: "nat \<Rightarrow> 'p list \<Rightarrow> (nat \<Rightarrow> 'p option) \<Rightarrow> (nat \<Rightarrow> 'p option)" where
  "recordInserted n ps f = (\<lambda>i. if n \<le> i \<and> i < n + length ps then Some (ps ! (i - n)) else f i)"

fun recordAssigned ::
  "'p operation \<Rightarrow> 'd item option \<Rightarrow> (nat \<Rightarrow> userId option) \<Rightarrow> (nat \<Rightarrow> userId option)" where
  "recordAssigned (GetItem userId sampleData rnd now) (Some item) f = f(itemId item \<mapsto> userId)"
| "recordAssigned operation selected f = f"

definition remember ::
  "'p operation \<Rightarrow> 'd collection \<Rightarrow> 'd item option \<Rightarrow> 'p history \<Rightarrow> 'p history" where
  "remember operation c selected h =
     \<lparr>inserted = recordInserted (nextId c) (insertedPayloads operation c) (inserted h),
      assigner = recordAssigned operation selected (assigner h)\<rparr>"

fun selected_mongo :: "'p operation \<Rightarrow> 'p collection \<Rightarrow> 'p item option" where
  "selected_mongo (GetItem userId sampleData rnd now) c =
     selectedItem_mongo c userId sampleData rnd"
| "selected_mongo operation c = None"

fun selected_sqlite ::
  "('p \<Rightarrow> 't) \<Rightarrow> 'p operation \<Rightarrow> 't collection \<Rightarrow> 't item option" where
  "selected_sqlite JSON_stringify (GetItem userId sampleData rnd now) t =
     selectedItem_sqlite JSON_stringify t userId sampleData rnd now"
| "selected_sqlite JSON_stringify operation t = None"

fun run_mongo ::
  "string \<Rightarrow> 'p operation list \<Rightarrow> 'p collection \<times> 'p history \<Rightarrow> 'p collection \<times> 'p history" where
  "run_mongo name [] s = s"
| "run_mongo name (operation # operations) (c, h) =
     run_mongo name operations
       (step_mongo name operation c, remember operation c (selected_mongo operation c) h)"

fun run_sqlite ::
  "('p \<Rightarrow> 't) \<Rightarrow> ('t \<Rightarrow> 'p) \<Rightarrow> string \<Rightarrow> 'p operation list \<Rightarrow>
   't collection \<times> 'p history \<Rightarrow> 't collection \<times> 'p history" where
  "run_sqlite JSON_stringify JSON_parse name [] s = s"
| "run_sqlite JSON_stringify JSON_parse name (operation # operations) (t, h) =
     run_sqlite JSON_stringify JSON_parse name operations
       (step_sqlite JSON_stringify JSON_parse name operation t,
        remember operation t (selected_sqlite JSON_stringify operation t) h)"

text \<open>
  Sample data as the repository's are: every sample item unused and unassigned. The MongoDB
  seeding inserts the sample items as they are, flags included.
\<close>

fun cleanSamples :: "'p operation \<Rightarrow> bool" where
  "cleanSamples (GetItem userId sampleData rnd now) =
     list_all (\<lambda>b. used b = False \<and> assignedTo b = None) sampleData"
| "cleanSamples (InitializeCollections sampleData now) =
     list_all (\<lambda>b. used b = False \<and> assignedTo b = None) sampleData"
| "cleanSamples operation = True"

section \<open>Vocabulary of the properties\<close>

text \<open>
  The candidate filter of the acquire operation, the assignment it writes to the item it
  selects, and the reset it writes to every item.
\<close>

definition candidate :: "userId \<Rightarrow> 'd item \<Rightarrow> bool" where
  "candidate u d = (used d = False \<and> assignedTo d \<noteq> Some u)"

definition assign :: "userId \<Rightarrow> 'd item \<Rightarrow> 'd item" where
  "assign u d = d\<lparr>used := True, assignedTo := Some u\<rparr>"

definition unassign :: "'d item \<Rightarrow> 'd item" where
  "unassign d = d\<lparr>used := False, assignedTo := None\<rparr>"

text \<open>
  The collection after the seeding step of an acquire call or of a callback of
  \<^verbatim>\<open>initializeCollections\<close>: the sample data appended when the count is zero. (With no
  sample data nothing is appended, whether the driver throws or not.)
\<close>

definition seeded :: "'d collection \<Rightarrow> 'd baseItem list \<Rightarrow> 'd collection" where
  "seeded c sampleData = (if countDocuments c = 0 then appended c sampleData else c)"

text \<open>
  The result of a MongoDB branch with \<^verbatim>\<open>JSON.parse\<close> applied to the payload it returns.
\<close>

definition decode :: "('t \<Rightarrow> 'p) \<Rightarrow> 't result \<Rightarrow> 'p result" where
  "decode JSON_parse r = \<lparr>success = success r, rdata = map_resultData JSON_parse (rdata r)\<rparr>"

text \<open>
  An operation and a history as the SQLite branches store them: payloads as JSON text,
  sample items as the rows of the seeding statement.
\<close>

fun encodeOperation :: "('p \<Rightarrow> 't) \<Rightarrow> 'p operation \<Rightarrow> 't operation" where
  "encodeOperation JSON_stringify (GetItem userId sampleData rnd now) =
     GetItem userId (map (sqlSeed JSON_stringify now) sampleData) rnd now"
| "encodeOperation JSON_stringify (CreateItems userId items now) =
     CreateItems userId (map JSON_stringify items) now"
| "encodeOperation JSON_stringify (InitializeCollections sampleData now) =
     InitializeCollections (map (sqlSeed JSON_stringify now) sampleData) now"
| "encodeOperation JSON_stringify MarkAllItemsAsUsed = MarkAllItemsAsUsed"
| "encodeOperation JSON_stringify (DeleteItemsByUser userId) = DeleteItemsByUser userId"

definition encodeHistory :: "('p \<Rightarrow> 't) \<Rightarrow> 'p history \<Rightarrow> 't history" where
  "encodeHistory JSON_stringify h =
     \<lparr>inserted = (\<lambda>i. map_option JSON_stringify (inserted h i)), assigner = assigner h\<rparr>"

text \<open>
  Properties of a collection with its history: an assigned item is used and assigned to
  the user of its last assignment; a used item is assigned to that user; every item holds
  the payload inserted with it.
\<close>

definition assignedAsRemembered :: "'d collection \<Rightarrow> 'p history \<Rightarrow> bool" where
  "assignedAsRemembered c h =
     (\<forall>d\<in>set (docs c). \<forall>u. assignedTo d = Some u \<longrightarrow>
        used d \<and> assigner h (itemId d) = Some u)"

definition usedAsRemembered :: "'d collection \<Rightarrow> 'p history \<Rightarrow> bool" where
  "usedAsRemembered c h =
     (\<forall>d\<in>set (docs c). used d \<longrightarrow>
        (\<exists>u. assignedTo d = Some u \<and> assigner h (itemId d) = Some u))"

definition payloadsAsInserted :: "'p collection \<Rightarrow> 'p history \<Rightarrow> bool" where
  "payloadsAsInserted c h = (\<forall>d\<in>set (docs c). inserted h (itemId d) = Some (data d))"

text \<open>
  Of a callback under \<^verbatim>\<open>Promise.all\<close>: the collection it works on, the documents it has
  still to insert, whether it has yet to read the count, whether it works on a SQLite
  table, and the collection it leaves when no other callback works on its collection.
\<close>

fun collectionOf :: "'d callback \<Rightarrow> string" where
  "collectionOf (AwaitCountDocuments name sampleData) = name"
| "collectionOf (AwaitInsertMany name sampleData) = name"
| "collectionOf (AwaitSelectCount name rows) = name"
| "collectionOf (AwaitPrepare name rows) = name"
| "collectionOf (AwaitRun name rows) = name"

fun batch :: "'d callback \<Rightarrow> 'd baseItem list" where
  "batch (AwaitCountDocuments name sampleData) = sampleData"
| "batch (AwaitInsertMany name sampleData) = sampleData"
| "batch (AwaitSelectCount name rows) = rows"
| "batch (AwaitPrepare name rows) = rows"
| "batch (AwaitRun name rows) = rows"

fun counting :: "'d callback \<Rightarrow> bool" where
  "counting (AwaitCountDocuments name sampleData) = True"
| "counting (AwaitSelectCount name rows) = True"
| "counting callback = False"

fun ofSQLite :: "'d callback \<Rightarrow> bool" where
  "ofSQLite (AwaitCountDocuments name sampleData) = False"
| "ofSQLite (AwaitInsertMany name sampleData) = False"
| "ofSQLite callback = True"

fun outcome :: "'d callback \<Rightarrow> 'd collection \<Rightarrow> 'd collection" where
  "outcome (AwaitCountDocuments name sampleData) c = seeded c sampleData"
| "outcome (AwaitInsertMany name sampleData) c = appended c sampleData"
| "outcome (AwaitSelectCount name rows) c = seeded c rows"
| "outcome (AwaitPrepare name rows) c = appended c rows"
| "outcome (AwaitRun name rows) c = appended c rows"

text \<open>
  Example collections and sample data, with the message as payload (\<^verbatim>\<open>'Event 1'\<close> for
  \<^verbatim>\<open>{ message: 'Event 1' }\<close>).
\<close>

definition bobsEvents :: "string collection" where
  "bobsEvents =
     \<lparr>docs = [\<lparr>data = ''seed'', used = False, assignedTo = None, createdBy = None,
                createdAt = None, itemId = 1\<rparr>,
              \<lparr>data = ''x'', used = False, assignedTo = None, createdBy = Some ''bob'',
                createdAt = Some 7, itemId = 2\<rparr>,
              \<lparr>data = ''y'', used = True, assignedTo = Some ''alice'', createdBy = Some ''bob'',
                createdAt = Some 8, itemId = 3\<rparr>],
      nextId = 4\<rparr>"



definition noEvents :: "string collection" where
  "noEvents = \<lparr>docs = [], nextId = 1\<rparr>"

definition sampleEvents :: "string baseItem list" where
  "sampleEvents =
     [\<lparr>data = ''Event 1'', used = False, assignedTo = None, createdBy = None, createdAt = None\<rparr>,
      \<lparr>data = ''Event 2'', used = False, assignedTo = None, createdBy = None, createdAt = None\<rparr>,
      \<lparr>data = ''Event 3'', used = False, assignedTo = None, createdBy = None, createdAt = None\<rparr>]"




section \<open>Lists, identifiers and the driver calls\<close>

lemma updateFirst_nth:
  "distinct (map itemId ds) \<Longrightarrow> k < length ds \<Longrightarrow>
   updateFirst (\<lambda>d. itemId d = itemId (ds ! k)) f ds = ds[k := f (ds ! k)]"
proof (induction ds arbitrary: k)
  case Nil
  then show ?case by simp
next
  case (Cons a ds)
  show ?case
  proof (cases k)
    case 0
    then show ?thesis by simp
  next
    case (Suc j)
    with Cons.prems have j: "j < length ds" and d: "distinct (map itemId ds)"
      and ne: "itemId a \<noteq> itemId (ds ! j)"
      by auto
    from Cons.IH[OF d j] Suc ne show ?thesis by simp
  qed
qed

lemma updateAll_nth:
  "distinct (map itemId ds) \<Longrightarrow> k < length ds \<Longrightarrow>
   map (\<lambda>d. if itemId d = itemId (ds ! k) then f d else d) ds = ds[k := f (ds ! k)]"
proof (induction ds arbitrary: k)
  case Nil
  then show ?case by simp
next
  case (Cons a ds)
  show ?case
  proof (cases k)
    case 0
    from Cons.prems have "itemId a \<notin> itemId ` set ds" by simp
    then have "\<forall>d\<in>set ds. itemId d \<noteq> itemId a" by (metis imageI)
    then have "map (\<lambda>d. if itemId d = itemId a then f d else d) ds = ds"
      by (simp add: map_idI)
    with 0 show ?thesis by simp
  next
    case (Suc j)
    with Cons.prems have j: "j < length ds" and d: "distinct (map itemId ds)"
      and ne: "itemId a \<noteq> itemId (ds ! j)"
      by auto
    from Cons.IH[OF d j] Suc ne show ?thesis by simp
  qed
qed

lemma filter_nth_source:
  "j < length (filter P xs) \<Longrightarrow> \<exists>k<length xs. xs ! k = filter P xs ! j \<and> P (xs ! k)"
proof -
  assume "j < length (filter P xs)"
  then have "filter P xs ! j \<in> set (filter P xs)" by (rule nth_mem)
  then have "filter P xs ! j \<in> set xs" and "P (filter P xs ! j)" by auto
  then show ?thesis by (metis in_set_conv_nth)
qed

lemma find_filter: "List.find P xs = (case filter P xs of [] \<Rightarrow> None | x # _ \<Rightarrow> Some x)"
  by (induction xs) auto

lemma insertFrom_length [simp]: "length (insertFrom n bs) = length bs"
  by (induction bs arbitrary: n) auto

lemma insertFrom_ids: "map itemId (insertFrom n bs) = [n ..< n + length bs]"
  by (induction bs arbitrary: n) (auto simp: stored_def upt_rec)

lemma insertFrom_append: "insertFrom n (xs @ ys) = insertFrom n xs @ insertFrom (n + length xs) ys"
  by (induction xs arbitrary: n) auto

lemma insertFrom_id_range:
  "d \<in> set (insertFrom n bs) \<Longrightarrow> n \<le> itemId d \<and> itemId d < n + length bs"
proof -
  assume "d \<in> set (insertFrom n bs)"
  then have "itemId d \<in> set (map itemId (insertFrom n bs))" by simp
  then show ?thesis by (simp add: insertFrom_ids)
qed

lemma wf_appended:
  assumes "wellFormed c"
  shows "wellFormed (appended c bs)"
proof -
  from assms have d: "distinct (map itemId (docs c))"
    and b: "\<forall>d\<in>set (docs c). itemId d < nextId c"
    by (simp_all add: wellFormed_def list_all_iff)
  from b have "set (map itemId (docs c)) \<inter> set [nextId c ..< nextId c + length bs] = {}"
    by auto
  with d have "distinct (map itemId (docs c @ insertFrom (nextId c) bs))"
    by (simp add: insertFrom_ids)
  moreover have "\<forall>d\<in>set (docs c @ insertFrom (nextId c) bs). itemId d < nextId c + length bs"
    using b insertFrom_id_range by fastforce
  ultimately show ?thesis
    by (simp add: wellFormed_def appended_def list_all_iff)
qed

lemma appended_Nil [simp]: "appended c [] = c"
  by (simp add: appended_def)

lemma insertMany_Nil [simp]: "insertMany c [] = Inl EmptyBatch"
  by (simp add: insertMany_def)

lemma insertMany_Cons [simp]: "insertMany c (b # bs) = Inr (appended c (b # bs))"
  by (simp add: insertMany_def)

lemma insertMany_accepts: "bs \<noteq> [] \<Longrightarrow> insertMany c bs = Inr (appended c bs)"
  by (simp add: insertMany_def)

lemma docs_appended [simp]: "docs (appended c bs) = docs c @ insertFrom (nextId c) bs"
  and nextId_appended [simp]: "nextId (appended c bs) = nextId c + length bs"
  by (simp_all add: appended_def)

lemma seeded_nonempty [simp]: "docs c \<noteq> [] \<Longrightarrow> seeded c sd = c"
  and seeded_Nil [simp]: "seeded c [] = c"
  and seeded_empty: "docs c = [] \<Longrightarrow> seeded c sd = appended c sd"
  by (simp_all add: seeded_def countDocuments_def)

lemma seeding:
  "(if countDocuments c = 0 then insertMany c sd else Inr c) =
   (if docs c = [] \<and> sd = [] then Inl EmptyBatch else Inr (seeded c sd))"
  by (simp add: seeded_def countDocuments_def insertMany_def)

lemma wf_seeded: "wellFormed c \<Longrightarrow> wellFormed (seeded c sd)"
  by (simp add: seeded_def wf_appended)

lemma wf_ids:
  "wellFormed c = (distinct (map itemId (docs c)) \<and> (\<forall>i\<in>set (map itemId (docs c)). i < nextId c))"
  by (auto simp: wellFormed_def list_all_iff)

lemma wf_docs_update:
  "wellFormed c \<Longrightarrow> map itemId ds = map itemId (docs c) \<Longrightarrow> wellFormed (c\<lparr>docs := ds\<rparr>)"
  unfolding wf_ids by simp

lemma assign_id [simp]: "itemId (assign u d) = itemId d"
  and unassign_id [simp]: "itemId (unassign d) = itemId d"
  by (simp_all add: assign_def unassign_def)

lemma assign_unassign [simp]: "assign u (unassign d) = assign u d"
  by (simp add: assign_def unassign_def)

text \<open>The rotation on a collection that needs no seeding.\<close>

lemma getItem_mongo_hit_sel:
  assumes w: "wellFormed c" and ne: "docs c \<noteq> [] \<or> sd = []"
    and ex: "\<exists>d\<in>set (docs c). candidate u d"
  shows "\<exists>k<length (docs c). candidate u (docs c ! k) \<and>
           selectedItem_mongo c u sd r = Some (docs c ! k) \<and>
           getItemFromCollection_mongo c n u sd r =
             (Inr \<lparr>success = True, rdata = ItemData (data (docs c ! k))\<rparr>,
              c\<lparr>docs := (docs c)[k := assign u (docs c ! k)]\<rparr>)"
proof -
  let ?P = "\<lambda>d. used d = False \<and> assignedTo d \<noteq> Some u"
  let ?items = "filter ?P (docs c)"
  from ex have nonempty: "?items \<noteq> []"
    by (auto simp: candidate_def filter_empty_conv)
  then have j: "randomIndex r (length ?items) < length ?items"
    by (simp add: randomIndex_def)
  from filter_nth_source[OF j] obtain k where k: "k < length (docs c)"
    and eq: "docs c ! k = ?items ! randomIndex r (length ?items)" and p: "?P (docs c ! k)"
    by blast
  from w have d: "distinct (map itemId (docs c))" by (simp add: wellFormed_def)
  from ex have "docs c \<noteq> []" by auto
  then have seed: "(if countDocuments c = 0 then insertMany c sd else Inr c) = Inr c"
    by (simp add: seeding)
  have "getItemFromCollection_mongo c n u sd r =
          (Inr \<lparr>success = True, rdata = ItemData (data (docs c ! k))\<rparr>,
           updateOne (\<lambda>d. itemId d = itemId (docs c ! k))
             (\<lambda>d. d\<lparr>used := True, assignedTo := Some u\<rparr>) c)"
    unfolding getItemFromCollection_mongo_def seed Let_def find_docs_def
    using nonempty eq by simp
  also have "updateOne (\<lambda>d. itemId d = itemId (docs c ! k))
             (\<lambda>d. d\<lparr>used := True, assignedTo := Some u\<rparr>) c
           = c\<lparr>docs := (docs c)[k := assign u (docs c ! k)]\<rparr>"
    by (simp add: updateOne_def updateFirst_nth[OF d k] assign_def)
  finally have g: "getItemFromCollection_mongo c n u sd r =
          (Inr \<lparr>success = True, rdata = ItemData (data (docs c ! k))\<rparr>,
           c\<lparr>docs := (docs c)[k := assign u (docs c ! k)]\<rparr>)" .
  have s: "selectedItem_mongo c u sd r = Some (docs c ! k)"
    unfolding selectedItem_mongo_def seed Let_def find_docs_def
    using nonempty eq by simp
  from p have "candidate u (docs c ! k)" by (simp add: candidate_def)
  with k g s show ?thesis by blast
qed


lemma getItem_mongo_reset_sel:
  assumes w: "wellFormed c" and ne: "docs c \<noteq> []"
    and ex: "\<forall>d\<in>set (docs c). \<not> candidate u d"
  shows "\<exists>k<length (docs c).
           selectedItem_mongo c u sd r = Some (unassign (docs c ! k)) \<and>
           getItemFromCollection_mongo c n u sd r =
             (Inr \<lparr>success = True, rdata = ItemData (data (docs c ! k))\<rparr>,
              c\<lparr>docs := (map unassign (docs c))[k := assign u (docs c ! k)]\<rparr>)"
proof -
  let ?P = "\<lambda>d. used d = False \<and> assignedTo d \<noteq> Some u"
  let ?c2 = "updateMany (\<lambda>d. True) (\<lambda>d. d\<lparr>used := False, assignedTo := None\<rparr>) c"
  let ?k = "randomIndex r (length (docs c))"
  from ex have empty: "filter ?P (docs c) = []"
    by (auto simp: candidate_def filter_empty_conv)
  have c2: "docs ?c2 = map unassign (docs c)"
    by (simp add: updateMany_def unassign_def)
  from ne have k: "?k < length (docs c)" by (simp add: randomIndex_def)
  from w have d: "distinct (map itemId (docs ?c2))"
    by (simp add: wellFormed_def c2 comp_def)
  have k2: "?k < length (docs ?c2)" using k by (simp add: c2)
  have seed: "(if countDocuments c = 0 then insertMany c sd else Inr c) = Inr c"
    using ne by (simp add: seeding)
  have "getItemFromCollection_mongo c n u sd r =
          (Inr \<lparr>success = True, rdata = ItemData (data (docs ?c2 ! ?k))\<rparr>,
           updateOne (\<lambda>d. itemId d = itemId (docs ?c2 ! ?k))
             (\<lambda>d. d\<lparr>used := True, assignedTo := Some u\<rparr>) ?c2)"
    unfolding getItemFromCollection_mongo_def seed Let_def find_docs_def
    using empty ne by (simp add: c2)
  also have "updateOne (\<lambda>d. itemId d = itemId (docs ?c2 ! ?k))
             (\<lambda>d. d\<lparr>used := True, assignedTo := Some u\<rparr>) ?c2
           = ?c2\<lparr>docs := (docs ?c2)[?k := assign u (docs ?c2 ! ?k)]\<rparr>"
    by (simp add: updateOne_def updateFirst_nth[OF d k2] assign_def)
  also have "\<dots> = c\<lparr>docs := (map unassign (docs c))[?k := assign u (docs c ! ?k)]\<rparr>"
    using k by (simp add: c2) (simp add: updateMany_def)
  also have "data (docs ?c2 ! ?k) = data (docs c ! ?k)"
    using k by (simp add: c2 unassign_def)
  finally have g: "getItemFromCollection_mongo c n u sd r =
          (Inr \<lparr>success = True, rdata = ItemData (data (docs c ! ?k))\<rparr>,
           c\<lparr>docs := (map unassign (docs c))[?k := assign u (docs c ! ?k)]\<rparr>)" .
  have "selectedItem_mongo c u sd r = Some (docs ?c2 ! ?k)"
    unfolding selectedItem_mongo_def seed Let_def find_docs_def
    using empty ne by (simp add: c2)
  also have "docs ?c2 ! ?k = unassign (docs c ! ?k)"
    using k by (simp add: c2)
  finally have s: "selectedItem_mongo c u sd r = Some (unassign (docs c ! ?k))" .
  from k g s show ?thesis by blast
qed


text \<open>An empty collection with no sample data: the driver rejects the empty batch.\<close>

lemma getItem_mongo_none:
  assumes "docs c = []" "sd = []"
  shows "getItemFromCollection_mongo c n u sd r = (Inl EmptyBatch, c)"
  using assms by (simp add: getItemFromCollection_mongo_def seeding)

lemma getItem_mongo_seed:
  "getItemFromCollection_mongo c n u sd r =
   getItemFromCollection_mongo (seeded c sd) n u sd r"
proof (cases "docs c = []")
  case True
  show ?thesis
  proof (cases "sd = []")
    case True
    then show ?thesis by simp
  next
    case False
    from False have "insertFrom (nextId c) sd \<noteq> []"
      by (cases sd) auto
    with True have "docs (seeded c sd) \<noteq> []"
      by (simp add: seeded_empty)
    then have "docs (seeded c sd) \<noteq> []" "seeded (seeded c sd) sd = seeded c sd"
      by simp_all
    with True False show ?thesis
      by (simp add: getItemFromCollection_mongo_def seeding)
  qed
next
  case False
  then show ?thesis by simp
qed

lemma find_filter0:
  "List.find P xs = (if filter P xs = [] then None else Some (filter P xs ! 0))"
  by (simp add: find_filter split: list.splits)

lemma getItem_v1_mongo:
  "getItemFromCollection_v1 c n u sd = getItemFromCollection_mongo c n u sd 0"
proof -
  show ?thesis
    unfolding getItemFromCollection_v1_def getItemFromCollection_mongo_def Let_def
      findOne_def find_docs_def find_filter0 randomIndex_def
    by (simp split: sum.splits)
qed

lemma createItems_v1_mongo:
  "createItems_v1 c u items now = createItems_mongo c u items now"
  by (simp add: createItems_v1_def createItems_mongo_def)

lemma insertRow_appended:
  "insertRow t text u creator now =
   appended t [\<lparr>data = text, used = u, assignedTo = None, createdBy = creator,
                  createdAt = Some now\<rparr>]"
  by (simp add: insertRow_def appended_def stored_def)

lemma appended_Cons: "appended (appended c [b]) bs = appended c (b # bs)"
  by (simp add: appended_def)

lemma sqlite_seed_fold:
  "foldl (\<lambda>t item. insertRow t (S (data item)) False None now) t sd =
   appended t (map (sqlSeed S now) sd)"
proof (induction sd arbitrary: t)
  case Nil
  show ?case by simp
next
  case (Cons a sd)
  show ?case
  proof -
    have "insertRow t (S (data a)) False None now = appended t [sqlSeed S now a]"
      by (simp add: insertRow_appended sqlSeed_def)
    then show ?thesis
      by (simp add: Cons.IH appended_Cons)
  qed
qed

lemma init_sqlite_seeded:
  "initializeCollections_sqlite S t sd now = seeded t (map (sqlSeed S now) sd)"
  by (simp add: initializeCollections_sqlite_def seeded_def sqlite_seed_fold)

lemma init_mongo_seeded:
  "snd (initializeCollections_mongo c sd) = seeded c sd"
  by (simp add: initializeCollections_mongo_def seeded_def insertMany_def)

lemma init_mongo_result:
  "fst (initializeCollections_mongo c sd) =
   (if docs c = [] \<and> sd = [] then Inl EmptyBatch else Inr ())"
  by (simp add: initializeCollections_mongo_def insertMany_def countDocuments_def)

lemma updateAll_updateFirst:
  assumes "distinct (map itemId ds)" "it \<in> set ds"
  shows "map (\<lambda>d. if itemId d = itemId it then f d else d) ds =
         updateFirst (\<lambda>d. itemId d = itemId it) f ds"
proof -
  from assms(2) obtain k where k: "k < length ds" and it: "ds ! k = it"
    by (auto simp: in_set_conv_nth)
  from updateAll_nth[OF assms(1) k, of f] updateFirst_nth[OF assms(1) k, of f] it
  show ?thesis by simp
qed

lemma updateMany_updateOne:
  assumes "wellFormed c" "it \<in> set (docs c)"
  shows "updateMany (\<lambda>d. itemId d = itemId it) f c = updateOne (\<lambda>d. itemId d = itemId it) f c"
  using assms by (simp add: updateMany_def updateOne_def updateAll_updateFirst wellFormed_def)

text \<open>
  The SQLite branch does what the MongoDB branch does on the rows, the payload read back
  by \<^verbatim>\<open>JSON.parse\<close>; where the MongoDB branch throws for the empty batch, the SQLite branch
  answers \<^verbatim>\<open>success = false\<close>.
\<close>

lemma getItem_sqlite_mongo:
  assumes w: "wellFormed t"
  shows "getItemFromCollection_sqlite S P t n u sd r now =
           (case getItemFromCollection_mongo t n u (map (sqlSeed S now) sd) r of
              (Inr res, t') \<Rightarrow> (decode P res, t')
            | (Inl e, t') \<Rightarrow>
                (\<lparr>success = False, rdata = ErrorData (''No '' @ n @ '' available'')\<rparr>, t'))"
proof -
  define t1 where "t1 = seeded t (map (sqlSeed S now) sd)"
  define t2 where "t2 = updateMany (\<lambda>row. True) (\<lambda>row. row\<lparr>used := False, assignedTo := None\<rparr>) t1"
  let ?C = "\<lambda>d. used d = False \<and> assignedTo d \<noteq> Some u"
  have w1: "wellFormed t1" using w by (simp add: t1_def wf_seeded)
  have "map itemId (docs t2) = map itemId (docs t1)"
    by (simp add: t2_def updateMany_def comp_def)
  moreover have "nextId t2 = nextId t1"
    by (simp add: t2_def updateMany_def)
  ultimately have w2: "wellFormed t2"
    using w1 unfolding wf_ids by simp
  have cand: "(\<lambda>row. used row = False \<and> (assignedTo row = None \<or> assignedTo row \<noteq> Some u)) = ?C"
    by auto
  have st: "(if countDocuments t = 0
             then foldl (\<lambda>t item. insertRow t (S (data item)) False None now) t sd else t) = t1"
    by (simp add: t1_def seeded_def sqlite_seed_fold)
  have lhs: "getItemFromCollection_sqlite S P t n u sd r now =
     (case selectRandom ?C r t1 of
        Some item \<Rightarrow> (\<lparr>success = True, rdata = ItemData (P (data item))\<rparr>,
           updateMany (\<lambda>row. itemId row = itemId item)
             (\<lambda>row. row\<lparr>used := True, assignedTo := Some u\<rparr>) t1)
      | None \<Rightarrow> (case selectRandom (\<lambda>row. True) r t2 of
           Some resetItem \<Rightarrow> (\<lparr>success = True, rdata = ItemData (P (data resetItem))\<rparr>,
              updateMany (\<lambda>row. itemId row = itemId resetItem)
                (\<lambda>row. row\<lparr>used := True, assignedTo := Some u\<rparr>) t2)
         | None \<Rightarrow> (\<lparr>success = False, rdata = ErrorData (''No '' @ n @ '' available'')\<rparr>, t2)))"
    unfolding getItemFromCollection_sqlite_def Let_def st t2_def[symmetric] cand ..
  show ?thesis
  proof (cases "docs t = [] \<and> sd = []")
    case True
    then have "t1 = t" "docs t2 = []" "t2 = t"
      by (simp_all add: t1_def t2_def updateMany_def)
    with True show ?thesis
      unfolding lhs by (simp add: getItem_mongo_none selectRandom_def)
  next
    case ne: False
    then have sm: "(if countDocuments t = 0 then insertMany t (map (sqlSeed S now) sd) else Inr t) =
        Inr t1"
      by (simp add: seeding t1_def)
    have rhs: "getItemFromCollection_mongo t n u (map (sqlSeed S now) sd) r =
       (if filter ?C (docs t1) \<noteq> []
        then (Inr \<lparr>success = True,
               rdata = ItemData (data (filter ?C (docs t1) ! randomIndex r (length (filter ?C (docs t1)))))\<rparr>,
              updateOne (\<lambda>d. itemId d = itemId (filter ?C (docs t1) ! randomIndex r (length (filter ?C (docs t1)))))
                (\<lambda>d. d\<lparr>used := True, assignedTo := Some u\<rparr>) t1)
        else if docs t2 \<noteq> []
        then (Inr \<lparr>success = True, rdata = ItemData (data (docs t2 ! randomIndex r (length (docs t2))))\<rparr>,
              updateOne (\<lambda>d. itemId d = itemId (docs t2 ! randomIndex r (length (docs t2))))
                (\<lambda>d. d\<lparr>used := True, assignedTo := Some u\<rparr>) t2)
        else (Inr \<lparr>success = False, rdata = ErrorData (''No '' @ n @ '' available'')\<rparr>, t2))"
      unfolding getItemFromCollection_mongo_def Let_def sm find_docs_def
      by (simp add: t2_def)
    show ?thesis
    proof (cases "filter ?C (docs t1) = []")
      case False
      define it where "it = filter ?C (docs t1) ! randomIndex r (length (filter ?C (docs t1)))"
      from False have "randomIndex r (length (filter ?C (docs t1))) < length (filter ?C (docs t1))"
        by (simp add: randomIndex_def)
      then have "it \<in> set (filter ?C (docs t1))"
        unfolding it_def by (rule nth_mem)
      then have mem: "it \<in> set (docs t1)"
        by simp
      have sel: "selectRandom ?C r t1 = Some it"
        using False by (simp add: selectRandom_def Let_def it_def)
      have rhs': "getItemFromCollection_mongo t n u (map (sqlSeed S now) sd) r =
          (Inr \<lparr>success = True, rdata = ItemData (data it)\<rparr>,
           updateOne (\<lambda>d. itemId d = itemId it) (\<lambda>d. d\<lparr>used := True, assignedTo := Some u\<rparr>) t1)"
        unfolding rhs it_def using False by simp
      show ?thesis
        unfolding lhs rhs' sel
        by (simp add: updateMany_updateOne[OF w1 mem] decode_def)
    next
      case True
      then have sel: "selectRandom ?C r t1 = None"
        by (simp add: selectRandom_def)
      show ?thesis
      proof (cases "docs t2 = []")
        case True
        with \<open>filter ?C (docs t1) = []\<close> show ?thesis
          unfolding lhs rhs by (simp add: selectRandom_def Let_def decode_def)
      next
        case False
        define it where "it = docs t2 ! randomIndex r (length (docs t2))"
        from False have "randomIndex r (length (docs t2)) < length (docs t2)"
          by (simp add: randomIndex_def)
        then have mem: "it \<in> set (docs t2)"
          unfolding it_def by (rule nth_mem)
        have sel2: "selectRandom (\<lambda>row. True) r t2 = Some it"
          using False by (simp add: selectRandom_def Let_def it_def)
        have rhs': "getItemFromCollection_mongo t n u (map (sqlSeed S now) sd) r =
            (Inr \<lparr>success = True, rdata = ItemData (data it)\<rparr>,
             updateOne (\<lambda>d. itemId d = itemId it) (\<lambda>d. d\<lparr>used := True, assignedTo := Some u\<rparr>) t2)"
          unfolding rhs it_def using False True by simp
        show ?thesis
          unfolding lhs rhs' sel sel2
          by (simp add: updateMany_updateOne[OF w2 mem] decode_def)
      qed
    qed
  qed
qed

section \<open>Deleting by creator\<close>

lemma count_createdBy:
  "length (filter (\<lambda>d. createdBy d \<noteq> Some u) ds) +
   length (filter (\<lambda>d. createdBy d = Some u) ds) = length ds"
  using sum_length_filter_compl[of "\<lambda>d. createdBy d = Some u" ds] by simp

text \<open>
  Claim C7. \<^verbatim>\<open>deleteItemsByUser\<close> keeps, in order and unchanged, exactly the items whose
  \<^verbatim>\<open>createdBy\<close> is not the given user; it reports success with \<^verbatim>\<open>deletedCount\<close> the
  number of items of that user, and the item count goes down by that number. Both
  branches, and the operation through either connected client: the collection it names is
  replaced, the others stay.
\<close>

theorem deleteItemsByUser_removes_created:
  "(case deleteItemsByUser_mongo c userId of
      (r, c') \<Rightarrow>
        docs c' = filter (\<lambda>d. createdBy d \<noteq> Some userId) (docs c) \<and>
        nextId c' = nextId c \<and>
        r = \<lparr>success = True,
             rdata = DeletedData (length (filter (\<lambda>d. createdBy d = Some userId) (docs c)))\<rparr> \<and>
        countDocuments c' + length (filter (\<lambda>d. createdBy d = Some userId) (docs c)) =
          countDocuments c) \<and>
   (case deleteItemsByUser_sqlite t userId of
      (r, t') \<Rightarrow>
        docs t' = filter (\<lambda>row. createdBy row \<noteq> Some userId) (docs t) \<and>
        nextId t' = nextId t \<and>
        r = \<lparr>success = True,
             rdata = DeletedData (length (filter (\<lambda>row. createdBy row = Some userId) (docs t)))\<rparr> \<and>
        countDocuments t' + length (filter (\<lambda>row. createdBy row = Some userId) (docs t)) =
          countDocuments t) \<and>
   deleteItemsByUser (MongoDBClient flag server) name userId =
     (Inr (fst (deleteItemsByUser_mongo (server name) userId)),
      MongoDBClient flag (server(name := snd (deleteItemsByUser_mongo (server name) userId
                                                :: 'p result \<times> 'p collection)))) \<and>
   deleteItemsByUser (SQLiteClient (Some tables)) name userId =
     (Inr (fst (deleteItemsByUser_sqlite (tables name) userId)),
      SQLiteClient (Some (tables(name := snd (deleteItemsByUser_sqlite (tables name) userId
                                                :: 'p result \<times> string collection)))))"
  by (simp add: deleteItemsByUser_def deleteItemsByUser_mongo_def deleteItemsByUser_sqlite_def
      deleteMany_def matchedCount_def countDocuments_def count_createdBy)

theorem deleteItemsByUser_removes_created_witness:
  "deleteItemsByUser_mongo bobsEvents ''bob'' =
     (\<lparr>success = True, rdata = DeletedData 2\<rparr> :: unit result,
      \<lparr>docs = [\<lparr>data = ''seed'', used = False, assignedTo = None, createdBy = None,
                createdAt = None, itemId = 1\<rparr>], nextId = 4\<rparr>) \<and>
   deleteItemsByUser_sqlite bobsEvents ''bob'' =
     (\<lparr>success = True, rdata = DeletedData 2\<rparr> :: unit result,
      \<lparr>docs = [\<lparr>data = ''seed'', used = False, assignedTo = None, createdBy = None,
                createdAt = None, itemId = 1\<rparr>], nextId = 4\<rparr>)"
  using deleteItemsByUser_removes_created[where c = bobsEvents and userId = "''bob''" and t = bobsEvents]
  by (simp add: bobsEvents_def deleteItemsByUser_mongo_def deleteItemsByUser_sqlite_def
      deleteMany_def matchedCount_def)

lemma not_Some_and_None: "(a \<noteq> Some u \<and> a = None) = (a = None)"
  by auto

lemma insertFrom_createdBy:
  "list_all (\<lambda>b. createdBy b = None) bs \<Longrightarrow>
   filter (\<lambda>d. createdBy d \<noteq> Some u) (insertFrom n bs) = insertFrom n bs"
  by (induction bs arbitrary: n) (auto simp: stored_def)

text \<open>
  Claim C10. An item without \<^verbatim>\<open>createdBy\<close> survives \<^verbatim>\<open>deleteItemsByUser\<close> for every user:
  the items without \<^verbatim>\<open>createdBy\<close> are the same before and after. An empty collection
  seeded with the question sample data (MongoDB), or a table seeded with any sample data
  (SQLite), is left as it is by the deletion.
\<close>

theorem deleteItemsByUser_keeps_seeded:
  "filter (\<lambda>d. createdBy d = None) (docs (snd (deleteItemsByUser_mongo c userId))) =
     filter (\<lambda>d. createdBy d = None) (docs c) \<and>
   filter (\<lambda>row. createdBy row = None) (docs (snd (deleteItemsByUser_sqlite t userId))) =
     filter (\<lambda>row. createdBy row = None) (docs t) \<and>
   (\<forall>d\<in>set (docs c). createdBy d = None \<longrightarrow>
      d \<in> set (docs (snd (deleteItemsByUser_mongo c userId)))) \<and>
   (\<forall>row\<in>set (docs t). createdBy row = None \<longrightarrow>
      row \<in> set (docs (snd (deleteItemsByUser_sqlite t userId)))) \<and>
   (docs q = [] \<longrightarrow>
      snd (deleteItemsByUser_mongo (snd (initializeCollections_mongo q questionSampleData))
             userId) =
        snd (initializeCollections_mongo q questionSampleData)) \<and>
   (docs t = [] \<longrightarrow>
      snd (deleteItemsByUser_sqlite
             (initializeCollections_sqlite JSON_stringify t sampleData now) userId) =
        initializeCollections_sqlite JSON_stringify t sampleData now)"
proof -
  have q: "list_all (\<lambda>b. createdBy b = None) questionSampleData"
    by (simp add: questionSampleData_def)
  have s: "list_all (\<lambda>b. createdBy b = None) (map (sqlSeed JSON_stringify now) sampleData)"
    by (simp add: list_all_iff sqlSeed_def)
  show ?thesis
    by (simp add: deleteItemsByUser_mongo_def deleteItemsByUser_sqlite_def deleteMany_def
        not_Some_and_None init_mongo_seeded init_sqlite_seeded seeded_def
        countDocuments_def appended_def
        insertFrom_createdBy[OF q] insertFrom_createdBy[OF s])
qed

theorem deleteItemsByUser_keeps_seeded_witness:
  "docs (snd (deleteItemsByUser_mongo bobsEvents ''bob'')) =
     [\<lparr>data = ''seed'', used = False, assignedTo = None, createdBy = None,
       createdAt = None, itemId = 1\<rparr>] \<and>
   docs (snd (deleteItemsByUser_mongo
                (snd (initializeCollections_mongo \<lparr>docs = [], nextId = 1\<rparr> questionSampleData))
                ''bob'')) =
     [\<lparr>data = \<lparr>message = ''Question 1''\<rparr>, used = False, assignedTo = None,
       createdBy = None, createdAt = None, itemId = 1\<rparr>,
      \<lparr>data = \<lparr>message = ''Question 2''\<rparr>, used = False, assignedTo = None,
       createdBy = None, createdAt = None, itemId = 2\<rparr>,
      \<lparr>data = \<lparr>message = ''Question 3''\<rparr>, used = False, assignedTo = None,
       createdBy = None, createdAt = None, itemId = 3\<rparr>]"
  using deleteItemsByUser_keeps_seeded[where c = bobsEvents and userId = "''bob''"
      and t = bobsEvents and q = "\<lparr>docs = [], nextId = 1\<rparr>"]
  by (simp add: bobsEvents_def deleteItemsByUser_mongo_def deleteMany_def
      initializeCollections_mongo_def countDocuments_def insertMany_def appended_def
      questionSampleData_def stored_def)

section \<open>The clients\<close>

text \<open>
  Claim C9. Before \<^verbatim>\<open>connect\<close> and after \<^verbatim>\<open>disconnect\<close>, \<^verbatim>\<open>getCollection\<close> of the SQLite
  client throws \<^verbatim>\<open>Database not connected\<close>; after \<^verbatim>\<open>connect\<close> it resolves to the database. \<^verbatim>\<open>getCollection\<close> of the MongoDB client does not look at
  its flag: on a client that reports \<^verbatim>\<open>isConnected() = false\<close> it resolves to the
  collection.
\<close>

theorem getCollection_before_connect:
  "getCollection (newSQLiteClient :: 'p client) name = Inl NotConnected \<and>
   getCollection (disconnect (SQLiteClient d) :: 'p client) name = Inl NotConnected \<and>
   getCollection (connect file newSQLiteClient :: 'p client) name = Inr (Database file) \<and>
   isConnected (newMongoDBClient server) = False \<and>
   getCollection (newMongoDBClient server) name = Inr (Collection (server name))"
  by (simp add: newSQLiteClient_def newMongoDBClient_def)

section \<open>The acquire operation\<close>

lemma length_updateFirst [simp]: "length (updateFirst P f xs) = length xs"
  by (induction xs) auto

lemma insertFrom_Nil_iff [simp]: "(insertFrom n bs = []) = (bs = [])"
  by (cases bs) auto

lemma seeded_empty_iff:
  "(docs (seeded c sd) = []) = (countDocuments c = 0 \<and> sd = [])"
  by (auto simp: seeded_def countDocuments_def)

text \<open>
  The MongoDB branch throws exactly on an empty collection with no sample data, and
  otherwise returns an item: it never answers \<^verbatim>\<open>success = false\<close>.
\<close>

lemma getItem_mongo_throws:
  "(fst (getItemFromCollection_mongo c n u sd r) = Inl EmptyBatch) = (docs c = [] \<and> sd = [])"
proof (cases "docs c = [] \<and> sd = []")
  case True
  then show ?thesis by (simp add: getItem_mongo_none)
next
  case False
  then show ?thesis
    unfolding getItemFromCollection_mongo_def seeding Let_def
    by (simp split: if_splits)
qed

lemma getItem_mongo_returns:
  assumes "\<not> (docs c = [] \<and> sd = [])"
  shows "\<exists>p. fst (getItemFromCollection_mongo c n u sd r) =
               Inr \<lparr>success = True, rdata = ItemData p\<rparr>"
proof -
  from assms have "docs (seeded c sd) \<noteq> []"
    by (simp add: seeded_empty_iff countDocuments_def)
  with assms show ?thesis
    unfolding getItemFromCollection_mongo_def seeding Let_def find_docs_def
    by (simp add: updateMany_def)
qed

lemma getItem_mongo_count:
  "countDocuments (snd (getItemFromCollection_mongo c n u sd r)) =
   countDocuments (seeded c sd)"
proof (cases "docs c = [] \<and> sd = []")
  case True
  then show ?thesis by (simp add: getItem_mongo_none)
next
  case False
  then show ?thesis
    unfolding getItemFromCollection_mongo_def seeding Let_def
    by (simp add: countDocuments_def updateOne_def updateMany_def)
qed

lemma getItem_sqlite_success:
  "success (fst (getItemFromCollection_sqlite S P t n u sd r now)) =
   (docs (initializeCollections_sqlite S t sd now) \<noteq> [])"
proof -
  define t1 where "t1 = (if countDocuments t = 0
      then foldl (\<lambda>t item. insertRow t (S (data item)) False None now) t sd else t)"
  have "filter Q (docs t1) \<noteq> [] \<Longrightarrow> docs t1 \<noteq> []" for Q
    by auto
  then show ?thesis
    unfolding getItemFromCollection_sqlite_def initializeCollections_sqlite_def Let_def
      t1_def[symmetric] selectRandom_def
    by (auto simp: updateMany_def split: option.splits if_splits)
qed

lemma getItem_sqlite_failure:
  "\<not> success (fst (getItemFromCollection_sqlite S P t n u sd r now)) \<Longrightarrow>
   fst (getItemFromCollection_sqlite S P t n u sd r now) =
     \<lparr>success = False, rdata = ErrorData (''No '' @ n @ '' available'')\<rparr>"
proof -
  define t1 where "t1 = (if countDocuments t = 0
      then foldl (\<lambda>t item. insertRow t (S (data item)) False None now) t sd else t)"
  show "\<not> success (fst (getItemFromCollection_sqlite S P t n u sd r now)) \<Longrightarrow> ?thesis"
    unfolding getItemFromCollection_sqlite_def Let_def t1_def[symmetric]
    by (simp split: option.splits)
qed

lemma getItem_sqlite_count:
  "countDocuments (snd (getItemFromCollection_sqlite S P t n u sd r now)) =
   countDocuments (initializeCollections_sqlite S t sd now)"
proof -
  define t1 where "t1 = (if countDocuments t = 0
      then foldl (\<lambda>t item. insertRow t (S (data item)) False None now) t sd else t)"
  show ?thesis
    unfolding getItemFromCollection_sqlite_def initializeCollections_sqlite_def Let_def
      t1_def[symmetric]
    by (simp add: countDocuments_def updateMany_def split: option.splits)
qed

lemma seeded_sqlite_empty_iff:
  "(docs (initializeCollections_sqlite S t sd now) = []) = (countDocuments t = 0 \<and> sd = [])"
  by (simp add: init_sqlite_seeded seeded_empty_iff)






lemma filter_used_unassign [simp]:
  "filter (\<lambda>d. used d) (map unassign ds) = []"
  "filter (\<lambda>d. used d \<and> assignedTo d = Some u) (map unassign ds) = []"
  "filter (\<lambda>d. \<not> used d \<and> assignedTo d = None) (map unassign ds) = map unassign ds"
  by (induction ds) (auto simp: unassign_def)










lemma getItem_mongo_outcome:
  "(fst (getItemFromCollection_mongo c n u sd r) = Inl EmptyBatch) =
     (countDocuments c = 0 \<and> sd = []) \<and>
   (\<exists>p. fst (getItemFromCollection_mongo c n u sd r) =
           Inr \<lparr>success = True, rdata = ItemData p\<rparr>) =
     (\<not> (countDocuments c = 0 \<and> sd = []))"
proof (cases "docs c = [] \<and> sd = []")
  case True
  then show ?thesis
    by (simp add: getItem_mongo_none countDocuments_def)
next
  case False
  from getItem_mongo_returns[OF False, of n u r] getItem_mongo_throws[of c n u sd r] False
  show ?thesis
    by (auto simp: countDocuments_def)
qed

lemma getItem_sqlite_outcome:
  "(success (fst (getItemFromCollection_sqlite S P t n u sd r now)) = False) =
     (countDocuments (snd (getItemFromCollection_sqlite S P t n u sd r now)) = 0) \<and>
   (countDocuments (snd (getItemFromCollection_sqlite S P t n u sd r now)) = 0) =
     (countDocuments t = 0 \<and> sd = []) \<and>
   (fst (getItemFromCollection_sqlite S P t n u sd r now) =
      \<lparr>success = False, rdata = ErrorData (''No '' @ n @ '' available'')\<rparr>) =
     (countDocuments t = 0 \<and> sd = [])"
proof -
  have "(countDocuments (initializeCollections_sqlite S t sd now) = 0) =
        (docs (initializeCollections_sqlite S t sd now) = [])"
    by (simp add: countDocuments_def)
  moreover have "(fst (getItemFromCollection_sqlite S P t n u sd r now) =
      \<lparr>success = False, rdata = ErrorData (''No '' @ n @ '' available'')\<rparr>) =
      (\<not> success (fst (getItemFromCollection_sqlite S P t n u sd r now)))"
    using getItem_sqlite_failure[of S P t n u sd r now] by auto
  ultimately show ?thesis
    by (simp add: getItem_sqlite_success getItem_sqlite_count seeded_sqlite_empty_iff)
qed

text \<open>
  Claim C4. On an empty collection with empty sample data the acquire operation of the
  MongoDB paths does not reach its \<^verbatim>\<open>return { success: false, ... }\<close>: the seeding step
  calls \<^verbatim>\<open>insertMany([])\<close>, the driver rejects the empty batch, and the operation throws
  (first revision, MongoDB branch, and the operation through the MongoDB client). That is
  the only case in which these paths throw, and in every other case they return an item,
  so they never answer \<^verbatim>\<open>success = false\<close>. The SQLite branch answers
  \<^verbatim>\<open>{ success: false, data: { error: 'No <name> available' } }\<close> exactly when the table is
  empty and the sample data are empty, and leaves the table empty.
\<close>

theorem getItem_without_items:
  "getItemFromCollection_v1 \<lparr>docs = [], nextId = first\<rparr> name userId [] =
     (Inl EmptyBatch, \<lparr>docs = [], nextId = first\<rparr>) \<and>
   getItemFromCollection_mongo \<lparr>docs = [], nextId = first\<rparr> name userId [] rnd =
     (Inl EmptyBatch, \<lparr>docs = [], nextId = first\<rparr>) \<and>
   getItemFromCollection JSON_stringify JSON_parse
       (MongoDBClient flag (server(name := \<lparr>docs = [], nextId = first\<rparr>))) name userId [] rnd now =
     (Inl EmptyBatch, MongoDBClient flag (server(name := \<lparr>docs = [], nextId = first\<rparr>))) \<and>
   (fst (getItemFromCollection_v1 c name userId sampleData) = Inl EmptyBatch) =
     (countDocuments c = 0 \<and> sampleData = []) \<and>
   (\<exists>payload. fst (getItemFromCollection_v1 c name userId sampleData) =
                 Inr \<lparr>success = True, rdata = ItemData payload\<rparr>) =
     (\<not> (countDocuments c = 0 \<and> sampleData = [])) \<and>
   (fst (getItemFromCollection_mongo c name userId sampleData rnd) = Inl EmptyBatch) =
     (countDocuments c = 0 \<and> sampleData = []) \<and>
   (\<exists>payload. fst (getItemFromCollection_mongo c name userId sampleData rnd) =
                 Inr \<lparr>success = True, rdata = ItemData payload\<rparr>) =
     (\<not> (countDocuments c = 0 \<and> sampleData = [])) \<and>
   fst (getItemFromCollection JSON_stringify JSON_parse (MongoDBClient flag server) name userId
          sampleData rnd now) =
     fst (getItemFromCollection_mongo (server name) name userId sampleData rnd) \<and>
   getItemFromCollection_sqlite JSON_stringify' JSON_parse' \<lparr>docs = [], nextId = first\<rparr> name
       userId [] rnd now =
     (\<lparr>success = False, rdata = ErrorData (''No '' @ name @ '' available'')\<rparr>,
      \<lparr>docs = [], nextId = first\<rparr>) \<and>
   (fst (getItemFromCollection_sqlite JSON_stringify' JSON_parse' t name userId sampleData
           rnd now) =
      \<lparr>success = False, rdata = ErrorData (''No '' @ name @ '' available'')\<rparr>) =
     (countDocuments t = 0 \<and> sampleData = []) \<and>
   (success (fst (getItemFromCollection_sqlite JSON_stringify' JSON_parse' t name userId
                    sampleData rnd now)) = False) =
     (countDocuments t = 0 \<and> sampleData = []) \<and>
   (countDocuments (snd (getItemFromCollection_sqlite JSON_stringify' JSON_parse' t name userId
                           sampleData rnd now)) = 0) =
     (countDocuments t = 0 \<and> sampleData = [])"
proof -
  let ?e = "\<lparr>docs = [], nextId = first\<rparr>"
  have m: "getItemFromCollection_mongo ?e name userId [] r = (Inl EmptyBatch, ?e)" for r
    by (rule getItem_mongo_none) simp_all
  have cl: "getItemFromCollection JSON_stringify JSON_parse
       (MongoDBClient flag (server(name := ?e))) name userId [] rnd now =
     (Inl EmptyBatch, MongoDBClient flag (server(name := ?e)))"
    by (simp add: getItemFromCollection_def m)
  have fc: "fst (getItemFromCollection JSON_stringify JSON_parse (MongoDBClient flag server) name
          userId sampleData rnd now) =
     fst (getItemFromCollection_mongo (server name) name userId sampleData rnd)"
    by (simp add: getItemFromCollection_def case_prod_beta)
  have sq: "getItemFromCollection_sqlite JSON_stringify' JSON_parse' ?e name userId [] rnd now =
     (\<lparr>success = False, rdata = ErrorData (''No '' @ name @ '' available'')\<rparr>, ?e)"
    by (simp add: getItemFromCollection_sqlite_def countDocuments_def selectRandom_def
        updateMany_def)
  note o0 = getItem_mongo_outcome[of c name userId sampleData 0]
  note o1 = getItem_mongo_outcome[of c name userId sampleData rnd]
  note s = getItem_sqlite_outcome[of JSON_stringify' JSON_parse' t name userId sampleData rnd now]
  show ?thesis
    unfolding getItem_v1_mongo
    apply (intro conjI)
               apply (rule m)
              apply (rule m)
             apply (rule cl)
            apply (rule o0[THEN conjunct1])
           apply (rule o0[THEN conjunct2])
          apply (rule o1[THEN conjunct1])
         apply (rule o1[THEN conjunct2])
        apply (rule fc)
       apply (rule sq)
      apply (rule s[THEN conjunct2, THEN conjunct2])
     apply (simp only: s[THEN conjunct1] s[THEN conjunct2, THEN conjunct1])
    apply (rule s[THEN conjunct2, THEN conjunct1])
    done
qed

section \<open>Seeding at startup\<close>

lemma settle_Nil [simp]: "settle [] store rejection schedule = (rejection, store)"
  by (simp add: settle.simps)

lemma settle_step:
  "pending \<noteq> [] \<Longrightarrow>
   settle pending store rejection schedule =
     (case advance (turn schedule (length pending)) pending store rejection of
        (pending', store', rejection') \<Rightarrow> settle pending' store' rejection' (tl schedule))"
  by (subst settle.simps) simp

lemma turn_less: "pending \<noteq> [] \<Longrightarrow> turn schedule (length pending) < length pending"
  by (simp add: turn_def split: list.splits)

text \<open>One step of a callback.\<close>

lemma resume_frame: "m \<noteq> collectionOf t \<Longrightarrow> snd (resume t store) m = store m"
  by (cases "(t, store)" rule: resume.cases) (auto simp: insertMany_def)

lemma resume_grows: "docs (store n) \<noteq> [] \<Longrightarrow> docs (snd (resume t store) n) \<noteq> []"
  by (cases "(t, store)" rule: resume.cases) (auto simp: insertMany_def)

lemma resume_counted:
  "counting t \<Longrightarrow> docs (store (collectionOf t)) \<noteq> [] \<Longrightarrow> resume t store = (Inr None, store)"
  by (cases "(t, store)" rule: resume.cases) (auto simp: countDocuments_def)

lemma resume_continues:
  assumes "resume t store = (Inr (Some t'), store')"
  shows "collectionOf t' = collectionOf t"
    and "outcome t' (store' (collectionOf t)) = outcome t (store (collectionOf t))"
    and "batch t = [] \<Longrightarrow> batch t' = [] \<and> store' = store"
    and "batch t \<noteq> [] \<Longrightarrow> batch t' \<noteq> [] \<or> docs (store' (collectionOf t)) \<noteq> []"
  using assms
  by (cases "(t, store)" rule: resume.cases;
      auto simp: insertMany_def countDocuments_def seeded_def appended_Cons
        split: if_splits)+

lemma resume_ends:
  assumes "resume t store = (out, store')" and "out = Inr None \<or> out = Inl e"
  shows "store' (collectionOf t) = outcome t (store (collectionOf t))"
    and "batch t = [] \<Longrightarrow> store' = store"
    and "batch t \<noteq> [] \<Longrightarrow> docs (store' (collectionOf t)) \<noteq> []"
  using assms
  by (cases "(t, store)" rule: resume.cases;
      auto simp: insertMany_def countDocuments_def seeded_def
        split: if_splits)+

lemma advance_cases [consumes 1, case_names continues ends]:
  assumes "i < length pending"
  obtains (continues) callback store' where
      "resume (pending ! i) store = (Inr (Some callback), store')"
      "fst (advance i pending store rejection) = pending[i := callback]"
      "fst (snd (advance i pending store rejection)) = store'"
  | (ends) out store' e where
      "resume (pending ! i) store = (out, store')" "out = Inr None \<or> out = Inl e"
      "fst (advance i pending store rejection) = take i pending @ drop (Suc i) pending"
      "fst (snd (advance i pending store rejection)) = store'"
proof (cases "resume (pending ! i) store")
  case (Pair out store')
  show ?thesis
  proof (cases out)
    case (Inl e)
    with Pair show ?thesis
      by (intro ends[of out store' e]) (simp_all add: advance_def)
  next
    case (Inr nxt)
    show ?thesis
    proof (cases nxt)
      case None
      with Pair Inr show ?thesis
        by (intro ends[of out store' undefined]) (simp_all add: advance_def)
    next
      case (Some callback)
      with Pair Inr show ?thesis
        by (intro continues[of callback store']) (simp_all add: advance_def)
    qed
  qed
qed

text \<open>A property of the pending callbacks and the database that every step keeps.\<close>

lemma settle_invariant:
  assumes "I pending store"
    and "\<And>pending store i rejection. I pending store \<Longrightarrow> i < length pending \<Longrightarrow>
           I (fst (advance i pending store rejection)) (fst (snd (advance i pending store rejection)))"
  shows "I [] (snd (settle pending store rejection schedule))"
  using assms(1)
proof (induction pending store rejection schedule rule: settle.induct)
  case (1 pending store rejection schedule)
  show ?case
  proof (cases "pending = []")
    case True
    with 1(2) show ?thesis by simp
  next
    case False
    define i where "i = turn schedule (length pending)"
    obtain pending' store' rejection' where a: "advance i pending store rejection = (pending', store', rejection')"
      by (cases "advance i pending store rejection") auto
    from False have "i < length pending" unfolding i_def by (rule turn_less)
    from assms(2)[OF 1(2) this, of rejection] a have "I pending' store'" by simp
    from 1(1)[OF False a[unfolded i_def, symmetric] refl this] show ?thesis
      by (simp add: settle_step[OF False] i_def[symmetric] a)
  qed
qed

lemma others_stay:
  assumes "x \<in> set pending" and "x \<noteq> pending ! i"
  shows "x \<in> set (pending[i := y])" and "x \<in> set (take i pending @ drop (Suc i) pending)"
proof -
  from assms(1) obtain j where j: "j < length pending" "pending ! j = x"
    by (auto simp: in_set_conv_nth)
  with assms(2) have ne: "j \<noteq> i" by auto
  with j have "pending[i := y] ! j = x" by simp
  with j show "x \<in> set (pending[i := y])"
    by (metis length_list_update nth_mem)
  show "x \<in> set (take i pending @ drop (Suc i) pending)"
  proof (cases "j < i")
    case True
    with j have "take i pending ! j = x" "j < length (take i pending)" by simp_all
    then have "x \<in> set (take i pending)" by (metis nth_mem)
    then show ?thesis by simp
  next
    case False
    with ne have "Suc i \<le> j" by simp
    with j have "drop (Suc i) pending ! (j - Suc i) = x" "j - Suc i < length (drop (Suc i) pending)"
      by simp_all
    then have "x \<in> set (drop (Suc i) pending)" by (metis nth_mem)
    then show ?thesis by simp
  qed
qed

lemma fewer:
  "set (take i pending @ drop (Suc i) pending) \<subseteq> set pending"
  "set (pending[i := y]) \<subseteq> insert y (set pending)"
  using set_take_subset[of i pending] set_drop_subset[of "Suc i" pending]
    set_update_subset_insert[of pending i y]
  by auto

lemma names_removed:
  assumes "distinct (map f pending)" and "i < length pending"
  shows "f (pending ! i) \<notin> f ` set (take i pending @ drop (Suc i) pending)"
    and "distinct (map f (take i pending @ drop (Suc i) pending))"
proof -
  from assms(2) have "map f pending =
      map f (take i pending) @ f (pending ! i) # map f (drop (Suc i) pending)"
    using arg_cong[OF id_take_nth_drop[OF assms(2)], of "map f"] by simp
  with assms(1) have d: "distinct (map f (take i pending) @ f (pending ! i) #
      map f (drop (Suc i) pending))" by simp
  from d show "f (pending ! i) \<notin> f ` set (take i pending @ drop (Suc i) pending)"
    by auto
  from d show "distinct (map f (take i pending @ drop (Suc i) pending))"
    by auto
qed

lemma names_kept:
  assumes "i < length pending" and "f y = f (pending ! i)"
  shows "map f (pending[i := y]) = map f pending"
  using assms by (simp add: map_update list_update_same_conv)

lemma distinct_names_differ:
  assumes "distinct (map f pending)" and "i < length pending" and "x \<in> set pending"
    and "x \<noteq> pending ! i"
  shows "f x \<noteq> f (pending ! i)"
proof -
  from assms(3) obtain j where j: "j < length pending" "pending ! j = x"
    by (auto simp: in_set_conv_nth)
  with assms(4) have "j \<noteq> i" by auto
  with assms(1,2) j have "map f pending ! j \<noteq> map f pending ! i"
    by (simp add: nth_eq_iff_index_eq del: nth_map)
  with j assms(2) show ?thesis by simp
qed

text \<open>
  A collection is left as it is when every callback that names it either finds it
  non-empty at its count or has no documents to insert.
\<close>

lemma settle_untouched:
  assumes "\<forall>t\<in>set pending. collectionOf t = n \<longrightarrow>
             (counting t \<and> docs (store n) \<noteq> []) \<or> batch t = []"
  shows "snd (settle pending store rejection schedule) n = store n"
proof -
  define I where "I = (\<lambda>(p :: 'a callback list) (s :: string \<Rightarrow> 'a collection). s n = store n \<and>
      (\<forall>t\<in>set p. collectionOf t = n \<longrightarrow> (counting t \<and> docs (s n) \<noteq> []) \<or> batch t = []))"
  have start: "I pending store"
    using assms by (simp add: I_def)
  have step: "I (fst (advance i p s r)) (fst (snd (advance i p s r)))"
    if inv: "I p s" and i: "i < length p" for p s i r
  proof -
    from i have mem: "p ! i \<in> set p" by simp
    from inv have same: "s n = store n"
      and all: "\<forall>t\<in>set p. collectionOf t = n \<longrightarrow> (counting t \<and> docs (s n) \<noteq> []) \<or> batch t = []"
      unfolding I_def by blast+
    from i show ?thesis
    proof (cases rule: advance_cases[where store = s and rejection = r])
      case (continues t' s')
      show ?thesis
      proof (cases "collectionOf (p ! i) = n")
        case True
        with all mem have "(counting (p ! i) \<and> docs (s n) \<noteq> []) \<or> batch (p ! i) = []" by blast
        then have e: "batch (p ! i) = []"
          using resume_counted[of "p ! i" s] continues(1) True by auto
        from resume_continues(3)[OF continues(1) e] have t': "batch t' = []" and s': "s' = s"
          by simp_all
        have "\<forall>t\<in>set (p[i := t']). collectionOf t = n \<longrightarrow>
            (counting t \<and> docs (s n) \<noteq> []) \<or> batch t = []"
          using all t' fewer(2)[of p i t'] by auto
        with same show ?thesis
          by (simp add: I_def continues s')
      next
        case False
        from resume_frame[of n "p ! i" s] False continues(1) have s': "s' n = s n" by simp
        from resume_continues(1)[OF continues(1)] False have "collectionOf t' \<noteq> n" by simp
        then have "\<forall>t\<in>set (p[i := t']). collectionOf t = n \<longrightarrow>
            (counting t \<and> docs (s n) \<noteq> []) \<or> batch t = []"
          using all fewer(2)[of p i t'] by auto
        with same s' show ?thesis
          by (simp add: I_def continues)
      qed
    next
      case (ends out s' e)
      have s': "s' n = s n"
      proof (cases "collectionOf (p ! i) = n")
        case True
        with all mem have "(counting (p ! i) \<and> docs (s n) \<noteq> []) \<or> batch (p ! i) = []" by blast
        then show ?thesis
        proof
          assume "counting (p ! i) \<and> docs (s n) \<noteq> []"
          with resume_counted[of "p ! i" s] True ends(1) show ?thesis by simp
        next
          assume "batch (p ! i) = []"
          from resume_ends(2)[OF ends(1,2) this] show ?thesis by simp
        qed
      next
        case False
        from resume_frame[of n "p ! i" s] False ends(1) show ?thesis by simp
      qed
      have "\<forall>t\<in>set (take i p @ drop (Suc i) p). collectionOf t = n \<longrightarrow>
            (counting t \<and> docs (s n) \<noteq> []) \<or> batch t = []"
        using all fewer(1)[of i p] by blast
      with same s' show ?thesis
        by (simp add: I_def ends)
    qed
  qed
  have "I [] (snd (settle pending store rejection schedule))"
    by (rule settle_invariant[where I = I, OF start]) (rule step, assumption+)
  then show ?thesis
    by (simp add: I_def)
qed

text \<open>
  When all callbacks have settled, a collection that a callback with documents to insert
  names is not empty.
\<close>

lemma settle_seeds:
  assumes "t0 \<in> set pending" and "batch t0 \<noteq> []"
  shows "docs (snd (settle pending store rejection schedule) (collectionOf t0)) \<noteq> []"
proof -
  define n where "n = collectionOf t0"
  define I where "I = (\<lambda>(p :: 'a callback list) (s :: string \<Rightarrow> 'a collection).
      docs (s n) \<noteq> [] \<or> (\<exists>t\<in>set p. collectionOf t = n \<and> batch t \<noteq> []))"
  have start: "I pending store"
    using assms by (auto simp: I_def n_def)
  have step: "I (fst (advance i p s r)) (fst (snd (advance i p s r)))"
    if inv: "I p s" and i: "i < length p" for p s i r
  proof (cases "docs (s n) \<noteq> []")
    case True
    from resume_grows[where store = s and n = n and t = "p ! i", OF True]
    have g: "docs (snd (resume (p ! i) s) n) \<noteq> []" .
    from i show ?thesis
      by (cases rule: advance_cases[where store = s and rejection = r])
        (use g in \<open>auto simp: I_def\<close>)
  next
    case False
    with inv obtain t where t: "t \<in> set p" "collectionOf t = n" "batch t \<noteq> []"
      by (auto simp: I_def)
    from i show ?thesis
    proof (cases rule: advance_cases[where store = s and rejection = r])
      case (continues t' s')
      show ?thesis
      proof (cases "t = p ! i")
        case True
        from resume_continues(1,4)[OF continues(1)] t True
        have "collectionOf t' = n" "batch t' \<noteq> [] \<or> docs (s' n) \<noteq> []" by auto
        moreover from i have "t' \<in> set (p[i := t'])" by (simp add: set_update_memI)
        ultimately show ?thesis
          unfolding I_def continues by blast
      next
        case False
        from others_stay(1)[OF t(1) False, of t'] t show ?thesis
          unfolding I_def continues by blast
      qed
    next
      case (ends out s' e)
      show ?thesis
      proof (cases "t = p ! i")
        case True
        from resume_ends(3)[OF ends(1,2)] t True have "docs (s' n) \<noteq> []" by auto
        then show ?thesis
          unfolding I_def ends by blast
      next
        case False
        from others_stay(2)[OF t(1) False] t show ?thesis
          unfolding I_def ends by blast
      qed
    qed
  qed
  have "I [] (snd (settle pending store rejection schedule))"
    by (rule settle_invariant[where I = I, OF start]) (rule step, assumption+)
  then show ?thesis
    by (simp add: I_def n_def)
qed

text \<open>
  When no two pending callbacks name the same collection, each callback leaves its
  collection as if it had run alone.
\<close>

lemma settle_distinct:
  assumes d: "distinct (map collectionOf pending)" and t0: "t0 \<in> set pending"
  shows "snd (settle pending store rejection schedule) (collectionOf t0) =
         outcome t0 (store (collectionOf t0))"
proof -
  define n where "n = collectionOf t0"
  define c where "c = outcome t0 (store n)"
  define I where "I = (\<lambda>p (s :: string \<Rightarrow> 'a collection). distinct (map collectionOf p) \<and>
      ((\<exists>x\<in>set p. collectionOf x = n \<and> outcome x (s n) = c) \<or>
       (n \<notin> collectionOf ` set p \<and> s n = c)))"
  have start: "I pending store"
    using assms by (auto simp: I_def n_def c_def)
  have step: "I (fst (advance i p s r)) (fst (snd (advance i p s r)))"
    if inv: "I p s" and i: "i < length p" for p s i r
  proof -
    from inv have dp: "distinct (map collectionOf p)" by (simp add: I_def)
    from i have mem: "p ! i \<in> set p" by simp
    from i show ?thesis
    proof (cases rule: advance_cases[where store = s and rejection = r])
      case (continues t' s')
      note same = resume_continues(1)[OF continues(1)]
      from names_kept[OF i, of collectionOf t'] same
      have names: "map collectionOf (p[i := t']) = map collectionOf p" by simp
      then have img: "collectionOf ` set (p[i := t']) = collectionOf ` set p"
        by (metis set_map)
      from dp names have d': "distinct (map collectionOf (p[i := t']))" by simp
      from inv show ?thesis
        unfolding I_def
      proof (elim conjE disjE bexE)
        fix x assume x: "x \<in> set p" "collectionOf x = n" "outcome x (s n) = c"
        show "distinct (map collectionOf (fst (advance i p s r))) \<and>
          ((\<exists>x\<in>set (fst (advance i p s r)). collectionOf x = n \<and>
               outcome x (fst (snd (advance i p s r)) n) = c) \<or>
           n \<notin> collectionOf ` set (fst (advance i p s r)) \<and> fst (snd (advance i p s r)) n = c)"
        proof (cases "x = p ! i")
          case True
          from resume_continues(2)[OF continues(1)] x True same
          have "collectionOf t' = n" "outcome t' (s' n) = c" by auto
          moreover from i have "t' \<in> set (p[i := t'])" by (simp add: set_update_memI)
          ultimately show ?thesis
            unfolding continues using d' by blast
        next
          case False
          from distinct_names_differ[OF dp i x(1) False] x(2)
          have "n \<noteq> collectionOf (p ! i)" by simp
          from resume_frame[OF this, of s] continues(1) have "s' n = s n" by simp
          with others_stay(1)[OF x(1) False, of t'] x show ?thesis
            unfolding continues using d' by auto
        qed
      next
        assume a: "n \<notin> collectionOf ` set p" "s n = c"
        with mem have "n \<noteq> collectionOf (p ! i)" by auto
        from resume_frame[OF this, of s] continues(1) have "s' n = s n" by simp
        with a img d' show "distinct (map collectionOf (fst (advance i p s r))) \<and>
          ((\<exists>x\<in>set (fst (advance i p s r)). collectionOf x = n \<and>
               outcome x (fst (snd (advance i p s r)) n) = c) \<or>
           n \<notin> collectionOf ` set (fst (advance i p s r)) \<and> fst (snd (advance i p s r)) n = c)"
          unfolding continues by simp
      qed
    next
      case (ends out s' e)
      note gone = names_removed[OF dp i]
      have sub: "collectionOf ` set (take i p @ drop (Suc i) p) \<subseteq> collectionOf ` set p"
        using fewer(1)[of i p] by blast
      from inv show ?thesis
        unfolding I_def
      proof (elim conjE disjE bexE)
        fix x assume x: "x \<in> set p" "collectionOf x = n" "outcome x (s n) = c"
        show "distinct (map collectionOf (fst (advance i p s r))) \<and>
          ((\<exists>x\<in>set (fst (advance i p s r)). collectionOf x = n \<and>
               outcome x (fst (snd (advance i p s r)) n) = c) \<or>
           n \<notin> collectionOf ` set (fst (advance i p s r)) \<and> fst (snd (advance i p s r)) n = c)"
        proof (cases "x = p ! i")
          case True
          from resume_ends(1)[OF ends(1,2)] x True have "s' n = c" by auto
          moreover from gone(1) x True
          have "n \<notin> collectionOf ` set (take i p @ drop (Suc i) p)" by auto
          ultimately show ?thesis
            unfolding ends using gone(2) by blast
        next
          case False
          from distinct_names_differ[OF dp i x(1) False] x(2)
          have "n \<noteq> collectionOf (p ! i)" by simp
          from resume_frame[OF this, of s] ends(1) have "s' n = s n" by simp
          with others_stay(2)[OF x(1) False] x show ?thesis
            unfolding ends using gone(2) by auto
        qed
      next
        assume a: "n \<notin> collectionOf ` set p" "s n = c"
        with mem have "n \<noteq> collectionOf (p ! i)" by auto
        from resume_frame[OF this, of s] ends(1) have "s' n = s n" by simp
        with a sub gone(2) show "distinct (map collectionOf (fst (advance i p s r))) \<and>
          ((\<exists>x\<in>set (fst (advance i p s r)). collectionOf x = n \<and>
               outcome x (fst (snd (advance i p s r)) n) = c) \<or>
           n \<notin> collectionOf ` set (fst (advance i p s r)) \<and> fst (snd (advance i p s r)) n = c)"
          unfolding ends by auto
      qed
    qed
  qed
  have "I [] (snd (settle pending store rejection schedule))"
    by (rule settle_invariant[where I = I, OF start]) (rule step, assumption+)
  then show ?thesis
    by (simp add: I_def n_def c_def)
qed

text \<open>The only call that throws is \<^verbatim>\<open>insertMany\<close> of no documents.\<close>

lemma resume_throws:
  "fst (resume t store) = Inl e \<Longrightarrow> batch t = [] \<and> \<not> ofSQLite t"
  by (cases "(t, store)" rule: resume.cases) (auto simp: insertMany_def split: if_splits)

lemma resume_same_kind:
  assumes "resume t store = (Inr (Some t'), store')"
  shows "ofSQLite t' = ofSQLite t" and "batch t \<noteq> [] \<Longrightarrow> batch t' \<noteq> []"
  using assms
  by (cases "(t, store)" rule: resume.cases; auto simp: insertMany_def split: if_splits)+

lemma settle_resolves:
  "\<forall>t\<in>set pending. batch t \<noteq> [] \<or> ofSQLite t \<Longrightarrow>
   fst (settle pending store rejection schedule) = rejection"
proof (induction pending store rejection schedule rule: settle.induct)
  case (1 pending store rejection schedule)
  show ?case
  proof (cases "pending = []")
    case True
    then show ?thesis by simp
  next
    case False
    define i where "i = turn schedule (length pending)"
    from False have i: "i < length pending" unfolding i_def by (rule turn_less)
    then have mem: "pending ! i \<in> set pending" by simp
    obtain pending' store' rejection' where
      a: "advance i pending store rejection = (pending', store', rejection')"
      by (cases "advance i pending store rejection") auto
    from mem 1(2) have safe: "batch (pending ! i) \<noteq> [] \<or> ofSQLite (pending ! i)" by blast
    have "rejection' = rejection \<and> (\<forall>t\<in>set pending'. batch t \<noteq> [] \<or> ofSQLite t)"
    proof (cases "resume (pending ! i) store")
      case (Pair out s')
      show ?thesis
      proof (cases out)
        case (Inl e)
        with Pair resume_throws[of "pending ! i" store e] safe show ?thesis by auto
      next
        case (Inr nxt)
        show ?thesis
        proof (cases nxt)
          case None
          with Pair Inr a have "pending' = take i pending @ drop (Suc i) pending"
            "rejection' = rejection"
            by (simp_all add: advance_def)
          with 1(2) fewer(1)[of i pending] show ?thesis by blast
        next
          case (Some t')
          with Pair Inr a have p': "pending' = pending[i := t']" "rejection' = rejection"
            by (simp_all add: advance_def)
          from resume_same_kind[of "pending ! i" store t' s'] Pair Inr Some safe
          have "batch t' \<noteq> [] \<or> ofSQLite t'" by auto
          with 1(2) fewer(2)[of pending i t'] p' show ?thesis by blast
        qed
      qed
    qed
    with 1(1)[OF False a[unfolded i_def, symmetric] refl] show ?thesis
      by (simp add: settle_step[OF False] i_def[symmetric] a)
  qed
qed

lemma promiseAll_snd:
  "snd (promiseAll callbacks store schedule) = snd (settle callbacks store None schedule)"
  by (simp add: promiseAll_def split: prod.splits option.splits)

lemma promiseAll_resolves:
  "\<forall>t\<in>set callbacks. batch t \<noteq> [] \<or> ofSQLite t \<Longrightarrow>
   fst (promiseAll callbacks store schedule) = Inr ()"
  using settle_resolves[of callbacks store None schedule]
  by (cases "settle callbacks store None schedule") (auto simp: promiseAll_def)

text \<open>A second run of callbacks for the same collections changes nothing.\<close>

lemma settle_again:
  assumes "\<forall>t2\<in>set again. counting t2 \<and>
             (batch t2 \<noteq> [] \<longrightarrow>
                (\<exists>t1\<in>set pending. collectionOf t1 = collectionOf t2 \<and> batch t1 \<noteq> []))"
  shows "snd (settle again (snd (settle pending store rejection schedule)) rejection' schedule') =
         snd (settle pending store rejection schedule)"
proof (rule ext)
  fix n
  let ?final = "snd (settle pending store rejection schedule)"
  have "\<forall>t\<in>set again. collectionOf t = n \<longrightarrow>
          (counting t \<and> docs (?final n) \<noteq> []) \<or> batch t = []"
  proof (intro ballI impI)
    fix t assume t: "t \<in> set again" "collectionOf t = n"
    show "(counting t \<and> docs (?final n) \<noteq> []) \<or> batch t = []"
    proof (cases "batch t = []")
      case True
      then show ?thesis by simp
    next
      case False
      with assms t obtain t1 where t1: "t1 \<in> set pending" "collectionOf t1 = n" "batch t1 \<noteq> []"
        by blast
      from settle_seeds[OF t1(1,3), of store rejection schedule] t1(2)
      have "docs (?final n) \<noteq> []" by simp
      with assms t show ?thesis by blast
    qed
  qed
  then show "snd (settle again ?final rejection' schedule') n = ?final n"
    by (rule settle_untouched)
qed

text \<open>The callbacks of \<^verbatim>\<open>initializeCollections\<close>, per engine.\<close>

lemma mongo_callbacks:
  "map collectionOf (map (\<lambda>(name, sampleData). AwaitCountDocuments name sampleData) collections) =
     map fst collections"
  "(t \<in> set (map (\<lambda>(name, sampleData). AwaitCountDocuments name sampleData) collections)) =
     (\<exists>(name, sampleData)\<in>set collections. t = AwaitCountDocuments name sampleData)"
  by (induction collections) auto

lemma sqlite_callbacks:
  "map collectionOf (map (\<lambda>(name, sampleData).
       AwaitSelectCount name (map (sqlSeed S now) sampleData)) collections) = map fst collections"
  "(t \<in> set (map (\<lambda>(name, sampleData).
       AwaitSelectCount name (map (sqlSeed S now) sampleData)) collections)) =
     (\<exists>(name, sampleData)\<in>set collections.
        t = AwaitSelectCount name (map (sqlSeed S now) sampleData))"
  by (induction collections) auto

lemma init_v1_snd:
  "snd (initializeCollections_v1 server collections schedule) =
   snd (settle (map (\<lambda>(name, sampleData). AwaitCountDocuments name sampleData) collections)
          server None schedule)"
  by (simp add: initializeCollections_v1_def promiseAll_snd)

lemma init_v1_twice:
  "snd (initializeCollections_v1 (snd (initializeCollections_v1 server collections schedule))
          collections schedule') =
   snd (initializeCollections_v1 server collections schedule)"
  unfolding init_v1_snd
proof (rule settle_again, intro ballI conjI impI)
  fix t2
  assume "t2 \<in> set (map (\<lambda>(name, sampleData). AwaitCountDocuments name sampleData) collections)"
  then obtain name sampleData where t2: "(name, sampleData) \<in> set collections"
    "t2 = AwaitCountDocuments name sampleData"
    unfolding mongo_callbacks(2) by blast
  then show "counting t2" by simp
  assume "batch t2 \<noteq> []"
  moreover from t2 have
    "t2 \<in> set (map (\<lambda>(name, sampleData). AwaitCountDocuments name sampleData) collections)"
    unfolding mongo_callbacks(2) by blast
  ultimately show "\<exists>t1\<in>set (map (\<lambda>(name, sampleData). AwaitCountDocuments name sampleData)
      collections). collectionOf t1 = collectionOf t2 \<and> batch t1 \<noteq> []"
    by blast
qed

lemma init_v1_distinct:
  assumes "distinct (map fst collections)" and "(name, sampleData) \<in> set collections"
  shows "snd (initializeCollections_v1 server collections schedule) name =
         seeded (server name) sampleData"
proof -
  let ?cbs = "map (\<lambda>(name, sampleData). AwaitCountDocuments name sampleData) collections"
  from assms(1) have d: "distinct (map collectionOf ?cbs)"
    by (simp only: mongo_callbacks(1))
  from assms(2) have m: "AwaitCountDocuments name sampleData \<in> set ?cbs"
    unfolding mongo_callbacks(2) by blast
  from settle_distinct[OF d m, of server None schedule] show ?thesis
    by (simp add: init_v1_snd)
qed

lemma init_v1_kept:
  assumes "\<forall>sampleData. (name, sampleData) \<in> set collections \<longrightarrow>
             docs (server name) \<noteq> [] \<or> sampleData = []"
  shows "snd (initializeCollections_v1 server collections schedule) name = server name"
  unfolding init_v1_snd
  by (rule settle_untouched) (use assms in \<open>auto simp: mongo_callbacks(2)\<close>)

lemma init_v1_other:
  "name \<notin> fst ` set collections \<Longrightarrow>
   snd (initializeCollections_v1 server collections schedule) name = server name"
  by (rule init_v1_kept) (auto simp: rev_image_eqI)

lemma init_v1_full:
  assumes "(name, sampleData) \<in> set collections" and "sampleData \<noteq> []"
  shows "docs (snd (initializeCollections_v1 server collections schedule) name) \<noteq> []"
proof -
  let ?cbs = "map (\<lambda>(name, sampleData). AwaitCountDocuments name sampleData) collections"
  from assms(1) have m: "AwaitCountDocuments name sampleData \<in> set ?cbs"
    unfolding mongo_callbacks(2) by blast
  from settle_seeds[OF m, of server None schedule] assms(2) show ?thesis
    by (simp add: init_v1_snd)
qed

lemma init_v1_resolves:
  "\<forall>(name, sampleData)\<in>set collections. sampleData \<noteq> [] \<Longrightarrow>
   fst (initializeCollections_v1 server collections schedule) = Inr ()"
  unfolding initializeCollections_v1_def
  by (rule promiseAll_resolves) (auto simp: mongo_callbacks(2))

text \<open>The same for the tables of a connected SQLite client.\<close>

lemma init_tables_twice:
  "snd (settle (map (\<lambda>(name, sampleData).
                  AwaitSelectCount name (map (sqlSeed S now') sampleData)) collections)
          (snd (settle (map (\<lambda>(name, sampleData).
                  AwaitSelectCount name (map (sqlSeed S now) sampleData)) collections)
                  tables None schedule)) None schedule') =
   snd (settle (map (\<lambda>(name, sampleData).
                  AwaitSelectCount name (map (sqlSeed S now) sampleData)) collections)
          tables None schedule)"
proof (rule settle_again, intro ballI conjI impI)
  fix t2
  assume "t2 \<in> set (map (\<lambda>(name, sampleData).
                  AwaitSelectCount name (map (sqlSeed S now') sampleData)) collections)"
  then obtain name sampleData where t2: "(name, sampleData) \<in> set collections"
    "t2 = AwaitSelectCount name (map (sqlSeed S now') sampleData)"
    unfolding sqlite_callbacks(2) by blast
  then show "counting t2" by simp
  assume "batch t2 \<noteq> []"
  with t2 have ne: "sampleData \<noteq> []" by auto
  from t2(1) have "AwaitSelectCount name (map (sqlSeed S now) sampleData)
      \<in> set (map (\<lambda>(name, sampleData).
                  AwaitSelectCount name (map (sqlSeed S now) sampleData)) collections)"
    unfolding sqlite_callbacks(2) by blast
  moreover have "collectionOf (AwaitSelectCount name (map (sqlSeed S now) sampleData)) =
      collectionOf t2" "batch (AwaitSelectCount name (map (sqlSeed S now) sampleData)) \<noteq> []"
    using t2(2) ne by simp_all
  ultimately show "\<exists>t1\<in>set (map (\<lambda>(name, sampleData).
                  AwaitSelectCount name (map (sqlSeed S now) sampleData)) collections).
      collectionOf t1 = collectionOf t2 \<and> batch t1 \<noteq> []"
    by blast
qed

lemma init_tables_distinct:
  assumes "distinct (map fst collections)" and "(name, sampleData) \<in> set collections"
  shows "snd (settle (map (\<lambda>(name, sampleData).
                  AwaitSelectCount name (map (sqlSeed S now) sampleData)) collections)
          tables None schedule) name =
         initializeCollections_sqlite S (tables name) sampleData now"
proof -
  let ?cbs = "map (\<lambda>(name, sampleData).
                  AwaitSelectCount name (map (sqlSeed S now) sampleData)) collections"
  from assms(1) have d: "distinct (map collectionOf ?cbs)"
    by (simp only: sqlite_callbacks(1))
  from assms(2) have m: "AwaitSelectCount name (map (sqlSeed S now) sampleData) \<in> set ?cbs"
    unfolding sqlite_callbacks(2) by blast
  from settle_distinct[OF d m, of tables None schedule] show ?thesis
    by (simp add: init_sqlite_seeded)
qed

lemma init_tables_kept:
  assumes "\<forall>sampleData. (name, sampleData) \<in> set collections \<longrightarrow>
             docs (tables name) \<noteq> [] \<or> sampleData = []"
  shows "snd (settle (map (\<lambda>(name, sampleData).
                  AwaitSelectCount name (map (sqlSeed S now) sampleData)) collections)
          tables None schedule) name = tables name"
  by (rule settle_untouched) (use assms in \<open>auto simp: sqlite_callbacks(2)\<close>)

lemma init_tables_full:
  assumes "(name, sampleData) \<in> set collections" and "sampleData \<noteq> []"
  shows "docs (snd (settle (map (\<lambda>(name, sampleData).
                  AwaitSelectCount name (map (sqlSeed S now) sampleData)) collections)
          tables None schedule) name) \<noteq> []"
proof -
  let ?cbs = "map (\<lambda>(name, sampleData).
                  AwaitSelectCount name (map (sqlSeed S now) sampleData)) collections"
  from assms(1) have m: "AwaitSelectCount name (map (sqlSeed S now) sampleData) \<in> set ?cbs"
    unfolding sqlite_callbacks(2) by blast
  from settle_seeds[OF m, of tables None schedule] assms(2) show ?thesis
    by simp
qed

text \<open>The operation through the clients.\<close>

lemma init_client_mongo:
  "initializeCollections S now (MongoDBClient flag server) collections schedule =
   (fst (initializeCollections_v1 server collections schedule),
    MongoDBClient flag (snd (initializeCollections_v1 server collections schedule)))"
  by (simp add: initializeCollections_def initializeCollections_v1_def case_prod_beta)

lemma init_client_sqlite:
  "initializeCollections S now (SQLiteClient (Some tables)) collections schedule =
   (Inr (), SQLiteClient (Some (snd (settle (map (\<lambda>(name, sampleData).
                  AwaitSelectCount name (map (sqlSeed S now) sampleData)) collections)
          tables None schedule))))"
proof -
  have "fst (promiseAll (map (\<lambda>(name, sampleData).
                  AwaitSelectCount name (map (sqlSeed S now) sampleData)) collections)
          tables schedule) = Inr ()"
    by (rule promiseAll_resolves) (auto simp: sqlite_callbacks(2))
  then show ?thesis
    by (simp add: initializeCollections_def case_prod_beta promiseAll_snd)
qed

lemma init_client_unconnected:
  "initializeCollections S now (SQLiteClient None) collections schedule =
   (if collections = [] then Inr () else Inl NotConnected, SQLiteClient None)"
  by (simp add: initializeCollections_def)

lemma init_client_twice:
  "snd (initializeCollections S now'
          (snd (initializeCollections S now client collections schedule))
          collections schedule') =
   snd (initializeCollections S now client collections schedule)"
proof (cases client)
  case (MongoDBClient flag server)
  then show ?thesis
    by (simp add: init_client_mongo init_v1_twice)
next
  case (SQLiteClient d)
  then show ?thesis
    by (cases d) (simp_all add: init_client_unconnected init_client_sqlite init_tables_twice)
qed

text \<open>The seeding at startup and the lazy seeding of the acquire operation.\<close>

lemma acquired_nonempty:
  "docs (snd (getItemFromCollection_mongo c n u sd r)) \<noteq> [] \<or> sd = []"
  using getItem_mongo_count[of c n u sd r] seeded_empty_iff[of c sd]
  by (auto simp: countDocuments_def)

lemma acquired_sqlite_nonempty:
  "docs (snd (getItemFromCollection_sqlite S P t n u sd r now)) \<noteq> [] \<or> sd = []"
  using getItem_sqlite_count[of S P t n u sd r now] seeded_sqlite_empty_iff[of S t sd now]
  by (auto simp: countDocuments_def)

lemma getItem_mongo_count_same:
  "docs c \<noteq> [] \<or> sd = [] \<Longrightarrow>
   countDocuments (snd (getItemFromCollection_mongo c n u sd r)) = countDocuments c"
  by (auto simp: getItem_mongo_count)

lemma getItem_sqlite_count_same:
  "docs t \<noteq> [] \<or> sd = [] \<Longrightarrow>
   countDocuments (snd (getItemFromCollection_sqlite S P t n u sd r now)) = countDocuments t"
  by (auto simp: getItem_sqlite_count init_sqlite_seeded)

lemma init_v1_after_getItem:
  assumes "\<forall>sd. (name, sd) \<in> set collections \<longrightarrow> sd = sampleData"
  shows "snd (initializeCollections_v1
                (server(name := snd (getItemFromCollection_mongo (server name) name u
                                       sampleData r)))
                collections schedule) name =
         snd (getItemFromCollection_mongo (server name) name u sampleData r)"
proof -
  define acquired where
    "acquired = snd (getItemFromCollection_mongo (server name) name u sampleData r)"
  define server' where "server' = server(name := acquired)"
  have a: "docs (server' name) \<noteq> [] \<or> sampleData = []"
    using acquired_nonempty[of "server name" name u sampleData r]
    by (simp add: server'_def acquired_def)
  have "snd (initializeCollections_v1 server' collections schedule) name = server' name"
    by (rule init_v1_kept) (use assms a in blast)
  then show ?thesis
    by (simp add: server'_def acquired_def)
qed

lemma init_tables_after_getItem:
  assumes "\<forall>sd. (name, sd) \<in> set collections \<longrightarrow> sd = sampleData"
  shows "snd (settle (map (\<lambda>(name, sampleData).
                  AwaitSelectCount name (map (sqlSeed S now') sampleData)) collections)
            (tables(name := snd (getItemFromCollection_sqlite S P (tables name) name u
                                   sampleData r now)))
            None schedule) name =
         snd (getItemFromCollection_sqlite S P (tables name) name u sampleData r now)"
proof -
  define acquired where
    "acquired = snd (getItemFromCollection_sqlite S P (tables name) name u sampleData r now)"
  define tables' where "tables' = tables(name := acquired)"
  have a: "docs (tables' name) \<noteq> [] \<or> sampleData = []"
    using acquired_sqlite_nonempty[of S P "tables name" name u sampleData r now]
    by (simp add: tables'_def acquired_def)
  have "snd (settle (map (\<lambda>(name, sampleData).
                  AwaitSelectCount name (map (sqlSeed S now') sampleData)) collections)
            tables' None schedule) name = tables' name"
    by (rule init_tables_kept) (use assms a in blast)
  then show ?thesis
    by (simp add: tables'_def acquired_def)
qed

lemma init_v1_seeded_or_empty:
  assumes "(name, sampleData) \<in> set collections"
  shows "docs (snd (initializeCollections_v1 server collections schedule) name) \<noteq> [] \<or>
         sampleData = []"
  using init_v1_full[OF assms, of server schedule] by blast

lemma init_tables_seeded_or_empty:
  assumes "(name, sampleData) \<in> set collections"
  shows "docs (snd (settle (map (\<lambda>(name, sampleData).
                  AwaitSelectCount name (map (sqlSeed S now) sampleData)) collections)
          tables None schedule) name) \<noteq> [] \<or> sampleData = []"
  using init_tables_full[OF assms, of S now tables schedule] by blast

text \<open>
  Claim C8. \<^verbatim>\<open>initializeCollections\<close> run a second time changes nothing, whatever the
  configurations and whatever the order in which the callbacks take their turns: the
  second run leaves every collection, and so every item count, as the first left it
  (first revision, and the second revision through either client). When no two
  configurations name the same collection, the collection of each configuration ends with
  the sample data inserted exactly when its count was zero, and the other collections are
  not touched. (Two configurations that name one collection can both read the count 0 and
  both insert; the collection is then seeded once per such callback by the first run, and
  the second run still changes nothing.) The same holds together with the lazy seeding of
  the acquire operation: \<^verbatim>\<open>initializeCollections\<close> after an acquire leaves the acquired
  collection as it is, and an acquire after \<^verbatim>\<open>initializeCollections\<close> leaves the item count
  as it is. With non-empty sample data the MongoDB run resolves; the SQLite run always
  does.
\<close>

theorem initializeCollections_seeds_once:
  "snd (initializeCollections_v1 (snd (initializeCollections_v1 server collections schedule))
          collections schedule') =
     snd (initializeCollections_v1 server collections schedule) \<and>
   snd (initializeCollections JSON_stringify now'
          (snd (initializeCollections JSON_stringify now client collections schedule))
          collections schedule') =
     snd (initializeCollections JSON_stringify now client collections schedule) \<and>
   initializeCollections JSON_stringify now (MongoDBClient flag server) collections schedule =
     (fst (initializeCollections_v1 server collections schedule),
      MongoDBClient flag (snd (initializeCollections_v1 server collections schedule))) \<and>
   initializeCollections JSON_stringify now (SQLiteClient None) collections schedule =
     (if collections = [] then Inr () else Inl NotConnected, SQLiteClient None) \<and>
   (let after = snd (initializeCollections_v1 server collections schedule)
    in (distinct (map fst collections) \<and> (name, sampleData) \<in> set collections \<longrightarrow>
          after name = snd (initializeCollections_mongo (server name) sampleData) \<and>
          after name = (if countDocuments (server name) = 0
                        then appended (server name) sampleData else server name)) \<and>
       (name \<notin> fst ` set collections \<longrightarrow> after name = server name) \<and>
       ((name, sampleData) \<in> set collections \<and> sampleData \<noteq> [] \<longrightarrow>
          countDocuments (after name) \<noteq> 0) \<and>
       ((name, sampleData) \<in> set collections \<longrightarrow>
          countDocuments (snd (getItemFromCollection_v1 (after name) name userId sampleData)) =
            countDocuments (after name) \<and>
          countDocuments (snd (getItemFromCollection_mongo (after name) name userId sampleData
                                 rnd)) =
            countDocuments (after name)) \<and>
       ((\<forall>(n, sd)\<in>set collections. sd \<noteq> []) \<longrightarrow>
          fst (initializeCollections_v1 server collections schedule) = Inr ())) \<and>
   ((\<forall>sd. (name, sd) \<in> set collections \<longrightarrow> sd = sampleData) \<longrightarrow>
      snd (initializeCollections_v1
             (server(name := snd (getItemFromCollection_v1 (server name) name userId
                                    sampleData)))
             collections schedule) name =
        snd (getItemFromCollection_v1 (server name) name userId sampleData) \<and>
      snd (initializeCollections_v1
             (server(name := snd (getItemFromCollection_mongo (server name) name userId
                                    sampleData rnd)))
             collections schedule) name =
        snd (getItemFromCollection_mongo (server name) name userId sampleData rnd)) \<and>
   (\<exists>after.
      initializeCollections JSON_stringify now (SQLiteClient (Some tables)) collections
          schedule =
        (Inr (), SQLiteClient (Some after)) \<and>
      (distinct (map fst collections) \<and> (name, sampleData) \<in> set collections \<longrightarrow>
         after name = initializeCollections_sqlite JSON_stringify (tables name) sampleData now) \<and>
      (name \<notin> fst ` set collections \<longrightarrow> after name = tables name) \<and>
      ((name, sampleData) \<in> set collections \<and> sampleData \<noteq> [] \<longrightarrow>
         countDocuments (after name) \<noteq> 0) \<and>
      ((name, sampleData) \<in> set collections \<longrightarrow>
         countDocuments (snd (getItemFromCollection_sqlite JSON_stringify JSON_parse
                                (after name) name userId sampleData rnd now')) =
           countDocuments (after name))) \<and>
   (\<exists>after.
      initializeCollections JSON_stringify now'
          (SQLiteClient (Some (tables(name :=
             snd (getItemFromCollection_sqlite JSON_stringify JSON_parse (tables name) name
                    userId sampleData rnd now)))))
          collections schedule =
        (Inr (), SQLiteClient (Some after)) \<and>
      ((\<forall>sd. (name, sd) \<in> set collections \<longrightarrow> sd = sampleData) \<longrightarrow>
         after name =
           snd (getItemFromCollection_sqlite JSON_stringify JSON_parse (tables name) name
                  userId sampleData rnd now)))"
proof -
  let ?after = "snd (initializeCollections_v1 server collections schedule)"
  let ?tables = "snd (settle (map (\<lambda>(name, sampleData).
                  AwaitSelectCount name (map (sqlSeed JSON_stringify now) sampleData)) collections)
          tables None schedule)"
  let ?acquired = "snd (getItemFromCollection_sqlite JSON_stringify JSON_parse (tables name) name
                    userId sampleData rnd now)"
  let ?tables' = "snd (settle (map (\<lambda>(name, sampleData).
                  AwaitSelectCount name (map (sqlSeed JSON_stringify now') sampleData)) collections)
          (tables(name := ?acquired)) None schedule)"
  have c5: "let after = ?after
    in (distinct (map fst collections) \<and> (name, sampleData) \<in> set collections \<longrightarrow>
          after name = snd (initializeCollections_mongo (server name) sampleData) \<and>
          after name = (if countDocuments (server name) = 0
                        then appended (server name) sampleData else server name)) \<and>
       (name \<notin> fst ` set collections \<longrightarrow> after name = server name) \<and>
       ((name, sampleData) \<in> set collections \<and> sampleData \<noteq> [] \<longrightarrow>
          countDocuments (after name) \<noteq> 0) \<and>
       ((name, sampleData) \<in> set collections \<longrightarrow>
          countDocuments (snd (getItemFromCollection_v1 (after name) name userId sampleData)) =
            countDocuments (after name) \<and>
          countDocuments (snd (getItemFromCollection_mongo (after name) name userId sampleData
                                 rnd)) =
            countDocuments (after name)) \<and>
       ((\<forall>(n, sd)\<in>set collections. sd \<noteq> []) \<longrightarrow>
          fst (initializeCollections_v1 server collections schedule) = Inr ())"
    unfolding Let_def getItem_v1_mongo
  proof (intro conjI impI)
    assume "distinct (map fst collections) \<and> (name, sampleData) \<in> set collections"
    then have e: "?after name = seeded (server name) sampleData"
      using init_v1_distinct by blast
    then show "?after name = snd (initializeCollections_mongo (server name) sampleData)"
      by (simp add: init_mongo_seeded)
    from e show "?after name = (if countDocuments (server name) = 0
                        then appended (server name) sampleData else server name)"
      by (simp add: seeded_def)
  next
    assume "name \<notin> fst ` set collections"
    then show "?after name = server name" by (rule init_v1_other)
  next
    assume "(name, sampleData) \<in> set collections \<and> sampleData \<noteq> []"
    then show "countDocuments (?after name) \<noteq> 0"
      using init_v1_full[of name sampleData collections server schedule]
      by (simp add: countDocuments_def)
  next
    assume m: "(name, sampleData) \<in> set collections"
    from getItem_mongo_count_same[OF init_v1_seeded_or_empty[OF m]]
    show "countDocuments (snd (getItemFromCollection_mongo (?after name) name userId sampleData 0)) =
            countDocuments (?after name)"
      "countDocuments (snd (getItemFromCollection_mongo (?after name) name userId sampleData
                                 rnd)) =
            countDocuments (?after name)"
      by blast+
  next
    assume "\<forall>(n, sd)\<in>set collections. sd \<noteq> []"
    then show "fst (initializeCollections_v1 server collections schedule) = Inr ()"
      by (rule init_v1_resolves)
  qed
  have c6: "(\<forall>sd. (name, sd) \<in> set collections \<longrightarrow> sd = sampleData) \<longrightarrow>
      snd (initializeCollections_v1
             (server(name := snd (getItemFromCollection_v1 (server name) name userId
                                    sampleData)))
             collections schedule) name =
        snd (getItemFromCollection_v1 (server name) name userId sampleData) \<and>
      snd (initializeCollections_v1
             (server(name := snd (getItemFromCollection_mongo (server name) name userId
                                    sampleData rnd)))
             collections schedule) name =
        snd (getItemFromCollection_mongo (server name) name userId sampleData rnd)"
    unfolding getItem_v1_mongo
    using init_v1_after_getItem by blast
  have c7: "initializeCollections JSON_stringify now (SQLiteClient (Some tables)) collections
          schedule =
        (Inr (), SQLiteClient (Some ?tables)) \<and>
      (distinct (map fst collections) \<and> (name, sampleData) \<in> set collections \<longrightarrow>
         ?tables name = initializeCollections_sqlite JSON_stringify (tables name) sampleData now) \<and>
      (name \<notin> fst ` set collections \<longrightarrow> ?tables name = tables name) \<and>
      ((name, sampleData) \<in> set collections \<and> sampleData \<noteq> [] \<longrightarrow>
         countDocuments (?tables name) \<noteq> 0) \<and>
      ((name, sampleData) \<in> set collections \<longrightarrow>
         countDocuments (snd (getItemFromCollection_sqlite JSON_stringify JSON_parse
                                (?tables name) name userId sampleData rnd now')) =
           countDocuments (?tables name))"
  proof (intro conjI impI)
    show "initializeCollections JSON_stringify now (SQLiteClient (Some tables)) collections
          schedule = (Inr (), SQLiteClient (Some ?tables))"
      by (rule init_client_sqlite)
  next
    assume "distinct (map fst collections) \<and> (name, sampleData) \<in> set collections"
    then show "?tables name =
        initializeCollections_sqlite JSON_stringify (tables name) sampleData now"
      using init_tables_distinct by blast
  next
    assume "name \<notin> fst ` set collections"
    then have "\<forall>sampleData. (name, sampleData) \<in> set collections \<longrightarrow>
             docs (tables name) \<noteq> [] \<or> sampleData = []"
      by (auto simp: rev_image_eqI)
    then show "?tables name = tables name" by (rule init_tables_kept)
  next
    assume "(name, sampleData) \<in> set collections \<and> sampleData \<noteq> []"
    then show "countDocuments (?tables name) \<noteq> 0"
      using init_tables_full[of name sampleData collections JSON_stringify now tables schedule]
      by (simp add: countDocuments_def)
  next
    assume m: "(name, sampleData) \<in> set collections"
    from getItem_sqlite_count_same[OF init_tables_seeded_or_empty[OF m]]
    show "countDocuments (snd (getItemFromCollection_sqlite JSON_stringify JSON_parse
                                (?tables name) name userId sampleData rnd now')) =
           countDocuments (?tables name)"
      by blast
  qed
  have c8: "initializeCollections JSON_stringify now'
          (SQLiteClient (Some (tables(name := ?acquired)))) collections schedule =
        (Inr (), SQLiteClient (Some ?tables')) \<and>
      ((\<forall>sd. (name, sd) \<in> set collections \<longrightarrow> sd = sampleData) \<longrightarrow> ?tables' name = ?acquired)"
    using init_client_sqlite[of JSON_stringify now' "tables(name := ?acquired)" collections schedule]
      init_tables_after_getItem[of name collections sampleData JSON_stringify now' tables
        JSON_parse userId rnd now schedule]
    by blast
  show ?thesis
    apply (intro conjI)
           apply (rule init_v1_twice)
          apply (rule init_client_twice)
         apply (rule init_client_mongo)
        apply (rule init_client_unconnected)
       apply (rule c5)
      apply (rule c6[THEN mp, THEN conjunct1, THEN impI] c6)
     apply (rule exI[where x = ?tables], rule c7)
    apply (rule exI[where x = ?tables'], rule c8)
    done
qed

theorem initializeCollections_seeds_once_witness:
  "distinct (map fst [(''events'', sampleEvents), (''questions'', sampleEvents)]) \<and>
   (''events'', sampleEvents) \<in> set [(''events'', sampleEvents), (''questions'', sampleEvents)] \<and>
   snd (initializeCollections_v1 (\<lambda>n. noEvents)
          [(''events'', sampleEvents), (''questions'', sampleEvents)] [1, 0, 1]) ''events'' =
     \<lparr>docs = [\<lparr>data = ''Event 1'', used = False, assignedTo = None, createdBy = None,
               createdAt = None, itemId = 1\<rparr>,
              \<lparr>data = ''Event 2'', used = False, assignedTo = None, createdBy = None,
               createdAt = None, itemId = 2\<rparr>,
              \<lparr>data = ''Event 3'', used = False, assignedTo = None, createdBy = None,
               createdAt = None, itemId = 3\<rparr>],
      nextId = 4\<rparr> \<and>
   snd (initializeCollections_v1
          (snd (initializeCollections_v1 (\<lambda>n. noEvents)
                  [(''events'', sampleEvents), (''questions'', sampleEvents)] [1, 0, 1]))
          [(''events'', sampleEvents), (''questions'', sampleEvents)] [0, 1]) =
     snd (initializeCollections_v1 (\<lambda>n. noEvents)
            [(''events'', sampleEvents), (''questions'', sampleEvents)] [1, 0, 1]) \<and>
   fst (initializeCollections_v1 (\<lambda>n. noEvents)
          [(''events'', sampleEvents), (''questions'', sampleEvents)] [1, 0, 1]) = Inr () \<and>
   (\<exists>after.
      initializeCollections (\<lambda>p. p) 7 (SQLiteClient (Some (\<lambda>n. noEvents)))
          [(''events'', sampleEvents), (''questions'', sampleEvents)] [1, 0, 1] =
        (Inr (), SQLiteClient (Some after)) \<and>
      countDocuments (after ''events'') = 3 \<and>
      countDocuments (snd (getItemFromCollection_sqlite (\<lambda>p. p) (\<lambda>s. s) (after ''events'')
                             ''events'' ''alice'' sampleEvents 2 8)) = 3)"
proof -
  let ?cs = "[(''events'', sampleEvents), (''questions'', sampleEvents)]"
  note w = initializeCollections_seeds_once[where collections = ?cs and name = "''events''"
      and sampleData = sampleEvents and server = "\<lambda>n. noEvents" and schedule = "[1, 0, 1]"
      and schedule' = "[0, 1]" and tables = "\<lambda>n. noEvents" and JSON_stringify = "\<lambda>p. p"
      and JSON_parse = "\<lambda>s. s" and now = 7 and now' = 8 and userId = "''alice''" and rnd = 2]
  have d: "distinct (map fst ?cs)" and m: "(''events'', sampleEvents) \<in> set ?cs"
    and ne: "\<forall>(n, sd)\<in>set ?cs. sd \<noteq> []"
    by (simp_all add: sampleEvents_def)
  have seeded: "(if countDocuments noEvents = 0 then appended noEvents sampleEvents else noEvents) =
     \<lparr>docs = [\<lparr>data = ''Event 1'', used = False, assignedTo = None, createdBy = None,
               createdAt = None, itemId = 1\<rparr>,
              \<lparr>data = ''Event 2'', used = False, assignedTo = None, createdBy = None,
               createdAt = None, itemId = 2\<rparr>,
              \<lparr>data = ''Event 3'', used = False, assignedTo = None, createdBy = None,
               createdAt = None, itemId = 3\<rparr>],
      nextId = 4\<rparr>"
    by (simp add: countDocuments_def noEvents_def sampleEvents_def appended_def stored_def)
  have rows: "countDocuments (initializeCollections_sqlite (\<lambda>p. p) noEvents sampleEvents 7) = 3"
    by (simp add: initializeCollections_sqlite_def countDocuments_def noEvents_def
        sampleEvents_def insertRow_def)
  note v1 = w[THEN conjunct2, THEN conjunct2, THEN conjunct2, THEN conjunct2, THEN conjunct1,
      unfolded Let_def]
  from v1 d m have a: "snd (initializeCollections_v1 (\<lambda>n. noEvents) ?cs [1, 0, 1]) ''events'' =
      (if countDocuments noEvents = 0 then appended noEvents sampleEvents else noEvents)"
    by blast
  from v1 ne have r: "fst (initializeCollections_v1 (\<lambda>n. noEvents) ?cs [1, 0, 1]) = Inr ()"
    by blast
  note twice = w[THEN conjunct1]
  from w obtain after where
    s1: "initializeCollections (\<lambda>p. p) 7 (SQLiteClient (Some (\<lambda>n. noEvents))) ?cs [1, 0, 1] =
        (Inr (), SQLiteClient (Some after))"
    and s2: "distinct (map fst ?cs) \<and> (''events'', sampleEvents) \<in> set ?cs \<longrightarrow>
         after ''events'' = initializeCollections_sqlite (\<lambda>p. p) noEvents sampleEvents 7"
    and s3: "(''events'', sampleEvents) \<in> set ?cs \<longrightarrow>
         countDocuments (snd (getItemFromCollection_sqlite (\<lambda>p. p) (\<lambda>s. s)
                                (after ''events'') ''events'' ''alice'' sampleEvents 2 8)) =
           countDocuments (after ''events'')"
    by blast
  from s2 d m rows have n: "countDocuments (after ''events'') = 3" by simp
  with s3 m have g: "countDocuments (snd (getItemFromCollection_sqlite (\<lambda>p. p) (\<lambda>s. s)
                                (after ''events'') ''events'' ''alice'' sampleEvents 2 8)) = 3"
    by simp
  from s1 n g have e: "\<exists>after.
      initializeCollections (\<lambda>p. p) 7 (SQLiteClient (Some (\<lambda>n. noEvents))) ?cs [1, 0, 1] =
        (Inr (), SQLiteClient (Some after)) \<and>
      countDocuments (after ''events'') = 3 \<and>
      countDocuments (snd (getItemFromCollection_sqlite (\<lambda>p. p) (\<lambda>s. s) (after ''events'')
                             ''events'' ''alice'' sampleEvents 2 8)) = 3"
    by blast
  from d m a[unfolded seeded] twice r e show ?thesis
    by (intro conjI)
qed

text \<open>
  Two configurations that name the same collection: when both callbacks read the count
  before either inserts, the sample data are inserted twice; when the first callback has
  inserted before the second reads the count, once.
\<close>

lemma initializeCollections_same_collection_twice:
  "map data (docs (snd (initializeCollections_v1 (\<lambda>n. noEvents)
                          [(''events'', sampleEvents), (''events'', sampleEvents)] [0, 1])
                     ''events'')) =
     [''Event 1'', ''Event 2'', ''Event 3'', ''Event 1'', ''Event 2'', ''Event 3''] \<and>
   map data (docs (snd (initializeCollections_v1 (\<lambda>n. noEvents)
                          [(''events'', sampleEvents), (''events'', sampleEvents)] [0, 0])
                     ''events'')) =
     [''Event 1'', ''Event 2'', ''Event 3''] \<and>
   map data (docs (the (db (snd (initializeCollections (\<lambda>p. p) 7
                                   (SQLiteClient (Some (\<lambda>n. noEvents)))
                                   [(''events'', sampleEvents), (''events'', sampleEvents)]
                                   [0, 1, 0, 1, 0, 1, 0, 1, 0, 1]))) ''events'')) =
     [''Event 1'', ''Event 1'', ''Event 2'', ''Event 2'', ''Event 3'', ''Event 3'']"
  by (simp add: initializeCollections_v1_def initializeCollections_def promiseAll_def
      settle_step advance_def turn_def countDocuments_def insertMany_def appended_def
      stored_def noEvents_def sampleEvents_def sqlSeed_def)

section \<open>Histories\<close>

lemma selectedItem_mongo_none:
  assumes "docs c = []" "sd = []"
  shows "selectedItem_mongo c u sd r = None"
  using assms by (simp add: selectedItem_mongo_def seeding)

lemma selectedItem_mongo_seed:
  "selectedItem_mongo c u sd r = selectedItem_mongo (seeded c sd) u sd r"
proof (cases "docs c = []")
  case True
  show ?thesis
  proof (cases "sd = []")
    case True
    then show ?thesis by simp
  next
    case False
    with True have "docs (seeded c sd) \<noteq> []"
      by (simp add: seeded_empty)
    then have "docs (seeded c sd) \<noteq> []" "seeded (seeded c sd) sd = seeded c sd"
      by simp_all
    with True False show ?thesis
      by (simp add: selectedItem_mongo_def seeding)
  qed
next
  case False
  then show ?thesis by simp
qed

text \<open>The three ways an acquire call can go, on the collection after seeding.\<close>

lemma getItem_mongo_effect:
  fixes c :: "'p collection" and sd :: "'p baseItem list"
  assumes w: "wellFormed c"
  defines "c1 \<equiv> seeded c sd"
  shows "(docs c1 = [] \<and> selectedItem_mongo c u sd r = None \<and>
          getItemFromCollection_mongo c n u sd r = (Inl EmptyBatch, c1)) \<or>
         (\<exists>k<length (docs c1). candidate u (docs c1 ! k) \<and>
            selectedItem_mongo c u sd r = Some (docs c1 ! k) \<and>
            getItemFromCollection_mongo c n u sd r =
              (Inr \<lparr>success = True, rdata = ItemData (data (docs c1 ! k))\<rparr>,
               c1\<lparr>docs := (docs c1)[k := assign u (docs c1 ! k)]\<rparr>)) \<or>
         (\<exists>k<length (docs c1).
            selectedItem_mongo c u sd r = Some (unassign (docs c1 ! k)) \<and>
            getItemFromCollection_mongo c n u sd r =
              (Inr \<lparr>success = True, rdata = ItemData (data (docs c1 ! k))\<rparr>,
               c1\<lparr>docs := (map unassign (docs c1))[k := assign u (docs c1 ! k)]\<rparr>))"
proof -
  have w1: "wellFormed c1" using w by (simp add: c1_def wf_seeded)
  have g: "getItemFromCollection_mongo c n u sd r = getItemFromCollection_mongo c1 n u sd r"
    unfolding c1_def by (rule getItem_mongo_seed)
  have s: "selectedItem_mongo c u sd r = selectedItem_mongo c1 u sd r"
    unfolding c1_def by (rule selectedItem_mongo_seed)
  show ?thesis
  proof (cases "docs c1 = []")
    case True
    then have "sd = []" by (simp add: c1_def seeded_empty_iff)
    with True show ?thesis
      unfolding g s by (simp add: getItem_mongo_none selectedItem_mongo_none)
  next
    case False
    show ?thesis
    proof (cases "\<exists>d\<in>set (docs c1). candidate u d")
      case True
      from False have "docs c1 \<noteq> [] \<or> sd = []" by simp
      from getItem_mongo_hit_sel[OF w1 this True, where n = n and r = r] show ?thesis
        unfolding g s by blast
    next
      case no: False
      then have "\<forall>d\<in>set (docs c1). \<not> candidate u d" by blast
      from getItem_mongo_reset_sel[OF w1 False this, where n = n and r = r and sd = sd] show ?thesis
        unfolding g s by blast
    qed
  qed
qed

lemma update_member:
  assumes "distinct (map itemId xs)" and "k < length xs" and "itemId y = itemId (xs ! k)"
    and "d \<in> set (xs[k := y])"
  shows "d = y \<or> (d \<in> set xs \<and> itemId d \<noteq> itemId y)"
proof -
  from assms(4) obtain j where j: "j < length xs" and d: "d = xs[k := y] ! j"
    by (auto simp: in_set_conv_nth)
  show ?thesis
  proof (cases "j = k")
    case True
    with j d show ?thesis by simp
  next
    case False
    with j d have e: "d = xs ! j" by simp
    from assms(1) j assms(2) False have "map itemId xs ! j \<noteq> map itemId xs ! k"
      by (simp add: nth_eq_iff_index_eq del: nth_map)
    with j assms(2,3) e show ?thesis by simp
  qed
qed

lemma insertFrom_member:
  "d \<in> set (insertFrom n bs) \<Longrightarrow> \<exists>j<length bs. d = stored (n + j) (bs ! j)"
proof (induction bs arbitrary: n)
  case Nil
  then show ?case by simp
next
  case (Cons b bs)
  from Cons.prems have "d = stored n b \<or> d \<in> set (insertFrom (Suc n) bs)" by simp
  then show ?case
  proof
    assume "d = stored n b"
    then have "d = stored (n + 0) ((b # bs) ! 0)" by simp
    then show ?thesis by blast
  next
    assume "d \<in> set (insertFrom (Suc n) bs)"
    from Cons.IH[OF this] obtain j where "j < length bs" "d = stored (Suc n + j) (bs ! j)"
      by blast
    then have "Suc j < length (b # bs)" "d = stored (n + Suc j) ((b # bs) ! Suc j)" by simp_all
    then show ?thesis by blast
  qed
qed

lemma stored_fields [simp]:
  "itemId (stored i b) = i" "data (stored i b) = data b" "used (stored i b) = used b"
  "assignedTo (stored i b) = assignedTo b" "createdBy (stored i b) = createdBy b"
  by (simp_all add: stored_def)

lemma wf_id_bound: "wellFormed c \<Longrightarrow> d \<in> set (docs c) \<Longrightarrow> itemId d < nextId c"
  by (simp add: wellFormed_def list_all_iff)

lemma recordInserted_old: "i < n \<Longrightarrow> recordInserted n ps f i = f i"
  by (simp add: recordInserted_def)

lemma recordInserted_new: "j < length ps \<Longrightarrow> recordInserted n ps f (n + j) = Some (ps ! j)"
  by (simp add: recordInserted_def)

lemma recordInserted_Nil [simp]: "recordInserted n [] f = f"
  by (rule ext) (auto simp: recordInserted_def)

text \<open>Inserting items keeps the three properties.\<close>

lemma insert_payloads:
  assumes "wellFormed c" and "payloadsAsInserted c h"
    and "docs c' = docs c @ insertFrom (nextId c) bs"
    and "inserted h' = recordInserted (nextId c) (map data bs) (inserted h)"
  shows "payloadsAsInserted c' h'"
  unfolding payloadsAsInserted_def
proof
  fix d assume "d \<in> set (docs c')"
  then have "d \<in> set (docs c) \<or> d \<in> set (insertFrom (nextId c) bs)"
    by (simp add: assms(3))
  then show "inserted h' (itemId d) = Some (data d)"
  proof
    assume m: "d \<in> set (docs c)"
    from wf_id_bound[OF assms(1) m] assms(2) m show ?thesis
      by (simp add: assms(4) recordInserted_old payloadsAsInserted_def)
  next
    assume "d \<in> set (insertFrom (nextId c) bs)"
    from insertFrom_member[OF this] obtain j where "j < length bs"
      "d = stored (nextId c + j) (bs ! j)" by blast
    then show ?thesis
      by (simp add: assms(4) recordInserted_new)
  qed
qed

lemma insert_assigned:
  assumes "list_all (\<lambda>b. assignedTo b = None) bs" and "assignedAsRemembered c h"
    and "docs c' = docs c @ insertFrom m bs" and "assigner h' = assigner h"
  shows "assignedAsRemembered c' h'"
  unfolding assignedAsRemembered_def
proof (intro ballI allI impI)
  fix d u assume m: "d \<in> set (docs c')" and a: "assignedTo d = Some u"
  from m have "d \<in> set (docs c) \<or> d \<in> set (insertFrom m bs)"
    by (simp add: assms(3))
  then show "used d \<and> assigner h' (itemId d) = Some u"
  proof
    assume "d \<in> set (docs c)"
    with assms(2) a show ?thesis by (simp add: assignedAsRemembered_def assms(4))
  next
    assume "d \<in> set (insertFrom m bs)"
    from insertFrom_member[OF this] obtain j where "j < length bs"
      "d = stored (m + j) (bs ! j)" by blast
    with assms(1) a show ?thesis by (simp add: list_all_length)
  qed
qed

lemma insert_used:
  assumes "list_all (\<lambda>b. used b = False) bs" and "usedAsRemembered c h"
    and "docs c' = docs c @ insertFrom m bs" and "assigner h' = assigner h"
  shows "usedAsRemembered c' h'"
  unfolding usedAsRemembered_def
proof (intro ballI impI)
  fix d assume m: "d \<in> set (docs c')" and a: "used d"
  from m have "d \<in> set (docs c) \<or> d \<in> set (insertFrom m bs)"
    by (simp add: assms(3))
  then show "\<exists>u. assignedTo d = Some u \<and> assigner h' (itemId d) = Some u"
  proof
    assume "d \<in> set (docs c)"
    with assms(2) a show ?thesis by (simp add: usedAsRemembered_def assms(4))
  next
    assume "d \<in> set (insertFrom m bs)"
    from insertFrom_member[OF this] obtain j where "j < length bs"
      "d = stored (m + j) (bs ! j)" by blast
    with assms(1) a show ?thesis by (simp add: list_all_length)
  qed
qed

text \<open>Keeping or dropping items keeps them as well.\<close>

lemma subset_remembered:
  assumes "set (docs c') \<subseteq> set (docs c)" and "assigner h' = assigner h"
  shows "assignedAsRemembered c h \<Longrightarrow> assignedAsRemembered c' h'"
    and "usedAsRemembered c h \<Longrightarrow> usedAsRemembered c' h'"
  using assms by (auto simp: assignedAsRemembered_def usedAsRemembered_def)

lemma subset_payloads:
  assumes "set (docs c') \<subseteq> set (docs c)" and "inserted h' = inserted h"
  shows "payloadsAsInserted c h \<Longrightarrow> payloadsAsInserted c' h'"
  using assms by (auto simp: payloadsAsInserted_def)

text \<open>Assigning the item at position \<open>k\<close>, with or without the reset before.\<close>

lemma assign_fields [simp]:
  "data (assign u d) = data d" "used (assign u d) = True" "assignedTo (assign u d) = Some u"
  "createdBy (assign u d) = createdBy d"
  "data (unassign d) = data d" "used (unassign d) = False" "assignedTo (unassign d) = None"
  "createdBy (unassign d) = createdBy d"
  by (simp_all add: assign_def unassign_def)

lemma hit_assigned:
  assumes "distinct (map itemId (docs c))" and "k < length (docs c)"
    and "assignedAsRemembered c h"
    and "docs c' = (docs c)[k := assign u (docs c ! k)]"
    and "assigner h' = (assigner h)(itemId (docs c ! k) \<mapsto> u)"
  shows "assignedAsRemembered c' h'"
  unfolding assignedAsRemembered_def
proof (intro ballI allI impI)
  fix d v
  assume "d \<in> set (docs c')" and a: "assignedTo d = Some v"
  then have "d \<in> set ((docs c)[k := assign u (docs c ! k)])" by (simp add: assms(4))
  from update_member[OF assms(1,2) _ this]
  have "d = assign u (docs c ! k) \<or> (d \<in> set (docs c) \<and> itemId d \<noteq> itemId (docs c ! k))"
    by simp
  then show "used d \<and> assigner h' (itemId d) = Some v"
  proof
    assume "d = assign u (docs c ! k)"
    with a show ?thesis by (simp add: assms(5))
  next
    assume "d \<in> set (docs c) \<and> itemId d \<noteq> itemId (docs c ! k)"
    with assms(3) a show ?thesis by (simp add: assignedAsRemembered_def assms(5))
  qed
qed

lemma hit_used:
  assumes "distinct (map itemId (docs c))" and "k < length (docs c)"
    and "usedAsRemembered c h"
    and "docs c' = (docs c)[k := assign u (docs c ! k)]"
    and "assigner h' = (assigner h)(itemId (docs c ! k) \<mapsto> u)"
  shows "usedAsRemembered c' h'"
  unfolding usedAsRemembered_def
proof (intro ballI impI)
  fix d
  assume "d \<in> set (docs c')" and a: "used d"
  then have "d \<in> set ((docs c)[k := assign u (docs c ! k)])" by (simp add: assms(4))
  from update_member[OF assms(1,2) _ this]
  have "d = assign u (docs c ! k) \<or> (d \<in> set (docs c) \<and> itemId d \<noteq> itemId (docs c ! k))"
    by simp
  then show "\<exists>v. assignedTo d = Some v \<and> assigner h' (itemId d) = Some v"
  proof
    assume "d = assign u (docs c ! k)"
    then show ?thesis by (simp add: assms(5))
  next
    assume "d \<in> set (docs c) \<and> itemId d \<noteq> itemId (docs c ! k)"
    with assms(3) a show ?thesis by (simp add: usedAsRemembered_def assms(5))
  qed
qed

lemma reset_remembered:
  assumes "k < length (docs c)"
    and "docs c' = (map unassign (docs c))[k := assign u (docs c ! k)]"
    and "assigner h' = (assigner h)(itemId (docs c ! k) \<mapsto> u)"
  shows "assignedAsRemembered c' h'" and "usedAsRemembered c' h'"
proof -
  have m: "d = assign u (docs c ! k) \<or> d \<in> set (map unassign (docs c))"
    if "d \<in> set (docs c')" for d
    using that set_update_subset_insert[of "map unassign (docs c)" k "assign u (docs c ! k)"]
    by (auto simp: assms(2))
  show "assignedAsRemembered c' h'"
    unfolding assignedAsRemembered_def
  proof (intro ballI allI impI)
    fix d v assume "d \<in> set (docs c')" and a: "assignedTo d = Some v"
    from m[OF this(1)] a show "used d \<and> assigner h' (itemId d) = Some v"
      by (auto simp: assms(3))
  qed
  show "usedAsRemembered c' h'"
    unfolding usedAsRemembered_def
  proof (intro ballI impI)
    fix d assume "d \<in> set (docs c')" and a: "used d"
    from m[OF this(1)] a show "\<exists>v. assignedTo d = Some v \<and> assigner h' (itemId d) = Some v"
      by (auto simp: assms(3))
  qed
qed

lemma hit_payloads:
  assumes "k < length (docs c)" and "payloadsAsInserted c h"
    and "docs c' = (docs c)[k := assign u (docs c ! k)] \<or>
         docs c' = (map unassign (docs c))[k := assign u (docs c ! k)]"
    and "inserted h' = inserted h"
  shows "payloadsAsInserted c' h'"
  unfolding payloadsAsInserted_def
proof
  from assms(2) have old: "\<forall>d\<in>set (docs c). inserted h (itemId d) = Some (data d)"
    by (simp add: payloadsAsInserted_def)
  from assms(1) have k: "docs c ! k \<in> set (docs c)" by simp
  fix d assume d: "d \<in> set (docs c')"
  from assms(3) have "d = assign u (docs c ! k) \<or> d \<in> set (docs c) \<or>
      d \<in> set (map unassign (docs c))"
  proof
    assume "docs c' = (docs c)[k := assign u (docs c ! k)]"
    with d set_update_subset_insert[of "docs c" k "assign u (docs c ! k)"]
    show ?thesis by auto
  next
    assume "docs c' = (map unassign (docs c))[k := assign u (docs c ! k)]"
    with d set_update_subset_insert[of "map unassign (docs c)" k "assign u (docs c ! k)"]
    show ?thesis by auto
  qed
  with old k show "inserted h' (itemId d) = Some (data d)"
    by (auto simp: assms(4))
qed

text \<open>Marking every unused item used.\<close>

lemma mark_assigned:
  assumes "assignedAsRemembered c h"
    and "docs c' = map (\<lambda>d. if used d = False then d\<lparr>used := True\<rparr> else d) (docs c)"
    and "assigner h' = assigner h"
  shows "assignedAsRemembered c' h'"
  using assms by (auto simp: assignedAsRemembered_def)

lemma mark_payloads:
  assumes "payloadsAsInserted c h"
    and "docs c' = map (\<lambda>d. if used d = False then d\<lparr>used := True\<rparr> else d) (docs c)"
    and "inserted h' = inserted h"
  shows "payloadsAsInserted c' h'"
  using assms by (auto simp: payloadsAsInserted_def)

lemma remember_fields [simp]:
  "inserted (remember op c sel h) =
     recordInserted (nextId c) (insertedPayloads op c) (inserted h)"
  "assigner (remember op c sel h) = recordAssigned op sel (assigner h)"
  by (simp_all add: remember_def)

lemma init_mongo_docs:
  "docs (seeded c sd) =
     docs c @ insertFrom (nextId c) (if countDocuments c = 0 then sd else [])"
  by (simp add: seeded_def)

declare init_mongo_seeded [simp]

lemma createItems_mongo_snd:
  "snd (createItems_mongo c u items now) =
   appended c (map (\<lambda>item. \<lparr>data = item, used = False, assignedTo = None,
                                 createdBy = Some u, createdAt = Some now\<rparr>) items)"
  by (cases items) (simp_all add: createItems_mongo_def Let_def)

lemma step_mongo_wf: "wellFormed c \<Longrightarrow> wellFormed (step_mongo n op c)"
proof (cases op)
  case (GetItem u sd r now)
  assume w: "wellFormed c"
  let ?c1 = "seeded c sd"
  have w1: "wellFormed ?c1" using w by (rule wf_seeded)
  have ids: "map itemId ((docs ?c1)[k := assign u (docs ?c1 ! k)]) = map itemId (docs ?c1)"
    "map itemId ((map unassign (docs ?c1))[k := assign u (docs ?c1 ! k)]) = map itemId (docs ?c1)"
    for k
    by (simp_all add: map_update list_update_same_conv comp_def)
      (metis assign_id list_update_beyond list_update_id map_update not_le nth_map)+
  from getItem_mongo_effect[OF w, of sd u r n] show ?thesis
    unfolding GetItem step_mongo.simps
    by (auto simp: w1 ids intro!: wf_docs_update[OF w1])
next
  case (CreateItems u items now)
  assume "wellFormed c"
  then show ?thesis
    by (simp add: CreateItems createItems_mongo_snd wf_appended)
next
  case (InitializeCollections sd now)
  assume "wellFormed c"
  then show ?thesis
    by (simp add: InitializeCollections wf_seeded)
next
  case MarkAllItemsAsUsed
  assume w: "wellFormed c"
  have "map itemId (map (\<lambda>d. if used d = False then d\<lparr>used := True\<rparr> else d) (docs c)) =
        map itemId (docs c)"
    by (induction "docs c") auto
  from wf_docs_update[OF w this] show ?thesis
    by (simp add: MarkAllItemsAsUsed markAllItemsAsUsed_mongo_def updateMany_def)
next
  case (DeleteItemsByUser u)
  assume "wellFormed c"
  then show ?thesis
    by (auto simp: DeleteItemsByUser deleteItemsByUser_mongo_def deleteMany_def wellFormed_def
        list_all_iff distinct_map_filter)
qed

text \<open>
  An acquire call is the seeding of \<^verbatim>\<open>initializeCollections\<close> followed by one of: nothing,
  an assignment, a reset and an assignment.
\<close>

lemma getItem_mongo_history:
  fixes c :: "'p collection" and h :: "'p history" and sd :: "'p baseItem list"
    and now :: date and n :: string and u :: userId and r :: nat
  assumes w: "wellFormed c"
  defines "c1 \<equiv> seeded c sd"
    and "h1 \<equiv> remember (InitializeCollections sd now) c (None :: 'p item option) h"
    and "c' \<equiv> step_mongo n (GetItem u sd r now) c"
    and "h' \<equiv> remember (GetItem u sd r now) c (selectedItem_mongo c u sd r) h"
  shows "inserted h' = inserted h1"
    and "(docs c' = docs c1 \<and> assigner h' = assigner h1) \<or>
         (\<exists>k<length (docs c1). docs c' = (docs c1)[k := assign u (docs c1 ! k)] \<and>
            assigner h' = (assigner h1)(itemId (docs c1 ! k) \<mapsto> u)) \<or>
         (\<exists>k<length (docs c1). docs c' = (map unassign (docs c1))[k := assign u (docs c1 ! k)] \<and>
            assigner h' = (assigner h1)(itemId (docs c1 ! k) \<mapsto> u))"
proof -
  show "inserted h' = inserted h1"
    by (simp add: h'_def h1_def)
  have a1: "assigner h1 = assigner h"
    by (simp add: h1_def)
  from getItem_mongo_effect[OF w, of sd u r n]
  show "(docs c' = docs c1 \<and> assigner h' = assigner h1) \<or>
         (\<exists>k<length (docs c1). docs c' = (docs c1)[k := assign u (docs c1 ! k)] \<and>
            assigner h' = (assigner h1)(itemId (docs c1 ! k) \<mapsto> u)) \<or>
         (\<exists>k<length (docs c1). docs c' = (map unassign (docs c1))[k := assign u (docs c1 ! k)] \<and>
            assigner h' = (assigner h1)(itemId (docs c1 ! k) \<mapsto> u))"
    unfolding c1_def[symmetric]
  proof (elim disjE conjE exE)
    assume "selectedItem_mongo c u sd r = None"
      and "getItemFromCollection_mongo c n u sd r = (Inl EmptyBatch, c1)"
    then have "docs c' = docs c1 \<and> assigner h' = assigner h1"
      by (simp add: c'_def h'_def a1)
    then show ?thesis by blast
  next
    fix k
    assume k: "k < length (docs c1)"
      and "selectedItem_mongo c u sd r = Some (docs c1 ! k)"
      and "getItemFromCollection_mongo c n u sd r =
              (Inr \<lparr>success = True, rdata = ItemData (data (docs c1 ! k))\<rparr>,
               c1\<lparr>docs := (docs c1)[k := assign u (docs c1 ! k)]\<rparr>)"
    then have "docs c' = (docs c1)[k := assign u (docs c1 ! k)] \<and>
            assigner h' = (assigner h1)(itemId (docs c1 ! k) \<mapsto> u)"
      by (simp add: c'_def h'_def a1)
    with k show ?thesis by blast
  next
    fix k
    assume k: "k < length (docs c1)"
      and "selectedItem_mongo c u sd r = Some (unassign (docs c1 ! k))"
      and "getItemFromCollection_mongo c n u sd r =
              (Inr \<lparr>success = True, rdata = ItemData (data (docs c1 ! k))\<rparr>,
               c1\<lparr>docs := (map unassign (docs c1))[k := assign u (docs c1 ! k)]\<rparr>)"
    then have "docs c' = (map unassign (docs c1))[k := assign u (docs c1 ! k)] \<and>
            assigner h' = (assigner h1)(itemId (docs c1 ! k) \<mapsto> u)"
      by (simp add: c'_def h'_def a1)
    with k show ?thesis by blast
  qed
qed

lemma init_mongo_payloads:
  assumes "wellFormed c" and "payloadsAsInserted c h"
  shows "payloadsAsInserted (seeded c sd)
           (remember (InitializeCollections sd now) c sel h)"
  by (rule insert_payloads[OF assms, where bs = "if countDocuments c = 0 then sd else []"])
    (simp_all add: init_mongo_docs)

lemma init_mongo_assigned:
  assumes "list_all (\<lambda>b. used b = False \<and> assignedTo b = None) sd"
  shows "assignedAsRemembered c h \<Longrightarrow>
         assignedAsRemembered (seeded c sd)
           (remember (InitializeCollections sd now) c (None :: 'd item option) h)"
    and "usedAsRemembered c h \<Longrightarrow>
         usedAsRemembered (seeded c sd)
           (remember (InitializeCollections sd now) c (None :: 'd item option) h)"
proof -
  let ?bs = "if countDocuments c = 0 then sd else []"
  from assms have a: "list_all (\<lambda>b. assignedTo b = None) ?bs"
    and u: "list_all (\<lambda>b. used b = False) ?bs"
    by (simp_all add: list_all_iff)
  show "assignedAsRemembered c h \<Longrightarrow>
         assignedAsRemembered (seeded c sd)
           (remember (InitializeCollections sd now) c (None :: 'd item option) h)"
    by (rule insert_assigned[OF a, where m = "nextId c"]) (simp_all add: init_mongo_docs)
  show "usedAsRemembered c h \<Longrightarrow>
         usedAsRemembered (seeded c sd)
           (remember (InitializeCollections sd now) c (None :: 'd item option) h)"
    by (rule insert_used[OF u, where m = "nextId c"]) (simp_all add: init_mongo_docs)
qed

lemma created_payloads [simp]:
  "map data (map (\<lambda>item. \<lparr>data = f item, used = a, assignedTo = b, createdBy = e,
                              createdAt = g\<rparr>) items) = map f items"
  by (induction items) auto

lemma step_mongo_payloads:
  assumes w: "wellFormed c" and p: "payloadsAsInserted c h"
  shows "payloadsAsInserted (step_mongo n op c) (remember op c (selected_mongo op c) h)"
proof (cases op)
  case (GetItem u sd r now)
  let ?c1 = "seeded c sd"
  let ?h1 = "remember (InitializeCollections sd now) c (None :: 'a item option) h"
  have p1: "payloadsAsInserted ?c1 ?h1" using w p by (rule init_mongo_payloads)
  note hist1 = getItem_mongo_history(1)[OF w, where u = u and sd = sd and r = r and now = now
      and h = h]
  note hist2 = getItem_mongo_history(2)[OF w, where u = u and sd = sd and r = r and now = now
      and h = h and n = n]
  from hist2 show ?thesis
    unfolding GetItem selected_mongo.simps
  proof (elim disjE conjE exE)
    assume "docs (step_mongo n (GetItem u sd r now) c) = docs ?c1"
    then show "payloadsAsInserted (step_mongo n (GetItem u sd r now) c)
        (remember (GetItem u sd r now) c (selectedItem_mongo c u sd r) h)"
      using subset_payloads[OF _ hist1 p1] by simp
  next
    fix k assume "k < length (docs ?c1)"
      and "docs (step_mongo n (GetItem u sd r now) c) = (docs ?c1)[k := assign u (docs ?c1 ! k)]"
    then show "payloadsAsInserted (step_mongo n (GetItem u sd r now) c)
        (remember (GetItem u sd r now) c (selectedItem_mongo c u sd r) h)"
      using hit_payloads[OF _ p1 _ hist1] by blast
  next
    fix k assume "k < length (docs ?c1)"
      and "docs (step_mongo n (GetItem u sd r now) c) =
           (map unassign (docs ?c1))[k := assign u (docs ?c1 ! k)]"
    then show "payloadsAsInserted (step_mongo n (GetItem u sd r now) c)
        (remember (GetItem u sd r now) c (selectedItem_mongo c u sd r) h)"
      using hit_payloads[OF _ p1 _ hist1] by blast
  qed
next
  case (CreateItems u items now)
  show ?thesis
    unfolding CreateItems step_mongo.simps createItems_mongo_snd
    by (rule insert_payloads[OF w p, where bs = "map (\<lambda>item. \<lparr>data = item, used = False,
        assignedTo = None, createdBy = Some u, createdAt = Some now\<rparr>) items"])
      (simp_all add: comp_def)
next
  case (InitializeCollections sd now)
  from init_mongo_payloads[OF w p] show ?thesis
    by (simp add: InitializeCollections)
next
  case MarkAllItemsAsUsed
  show ?thesis
    unfolding MarkAllItemsAsUsed
    by (rule mark_payloads[OF p]) (simp_all add: markAllItemsAsUsed_mongo_def updateMany_def)
next
  case (DeleteItemsByUser u)
  show ?thesis
    unfolding DeleteItemsByUser
    by (rule subset_payloads[OF _ _ p])
      (simp_all add: deleteItemsByUser_mongo_def deleteMany_def)
qed

lemma step_mongo_assigned:
  assumes w: "wellFormed c" and cl: "cleanSamples op" and a: "assignedAsRemembered c h"
  shows "assignedAsRemembered (step_mongo n op c) (remember op c (selected_mongo op c) h)"
proof (cases op)
  case (GetItem u sd r now)
  let ?c1 = "seeded c sd"
  let ?h1 = "remember (InitializeCollections sd now) c (None :: 'a item option) h"
  from cl have clean: "list_all (\<lambda>b. used b = False \<and> assignedTo b = None) sd"
    by (simp add: GetItem)
  have a1: "assignedAsRemembered ?c1 ?h1" using a by (rule init_mongo_assigned(1)[OF clean])
  from w have d1: "distinct (map itemId (docs ?c1))"
    using wf_seeded[of c sd] by (simp add: wellFormed_def)
  note hist2 = getItem_mongo_history(2)[OF w, where u = u and sd = sd and r = r and now = now
      and h = h and n = n]
  from hist2 show ?thesis
    unfolding GetItem selected_mongo.simps
  proof (elim disjE conjE exE)
    assume e: "docs (step_mongo n (GetItem u sd r now) c) = docs ?c1"
      and ae: "assigner (remember (GetItem u sd r now) c (selectedItem_mongo c u sd r) h) =
           assigner ?h1"
    from e have "set (docs (step_mongo n (GetItem u sd r now) c)) \<subseteq> set (docs ?c1)"
      by simp
    from subset_remembered(1)[OF this ae a1]
    show "assignedAsRemembered (step_mongo n (GetItem u sd r now) c)
        (remember (GetItem u sd r now) c (selectedItem_mongo c u sd r) h)" .
  next
    fix k assume "k < length (docs ?c1)"
      and "docs (step_mongo n (GetItem u sd r now) c) = (docs ?c1)[k := assign u (docs ?c1 ! k)]"
      and "assigner (remember (GetItem u sd r now) c (selectedItem_mongo c u sd r) h) =
           (assigner ?h1)(itemId (docs ?c1 ! k) \<mapsto> u)"
    then show "assignedAsRemembered (step_mongo n (GetItem u sd r now) c)
        (remember (GetItem u sd r now) c (selectedItem_mongo c u sd r) h)"
      using hit_assigned[OF d1 _ a1] by blast
  next
    fix k assume "k < length (docs ?c1)"
      and "docs (step_mongo n (GetItem u sd r now) c) =
           (map unassign (docs ?c1))[k := assign u (docs ?c1 ! k)]"
      and "assigner (remember (GetItem u sd r now) c (selectedItem_mongo c u sd r) h) =
           (assigner ?h1)(itemId (docs ?c1 ! k) \<mapsto> u)"
    then show "assignedAsRemembered (step_mongo n (GetItem u sd r now) c)
        (remember (GetItem u sd r now) c (selectedItem_mongo c u sd r) h)"
      using reset_remembered(1) by blast
  qed
next
  case (CreateItems u items now)
  show ?thesis
    unfolding CreateItems step_mongo.simps createItems_mongo_snd
    by (rule insert_assigned[OF _ a, where m = "nextId c"
          and bs = "map (\<lambda>item. \<lparr>data = item, used = False,
            assignedTo = None, createdBy = Some u, createdAt = Some now\<rparr>) items"])
      (simp_all add: list_all_iff)
next
  case (InitializeCollections sd now)
  from cl have clean: "list_all (\<lambda>b. used b = False \<and> assignedTo b = None) sd"
    by (simp add: InitializeCollections)
  from init_mongo_assigned(1)[OF clean a] show ?thesis
    by (simp add: InitializeCollections remember_def)
next
  case MarkAllItemsAsUsed
  show ?thesis
    unfolding MarkAllItemsAsUsed
    by (rule mark_assigned[OF a]) (simp_all add: markAllItemsAsUsed_mongo_def updateMany_def)
next
  case (DeleteItemsByUser u)
  show ?thesis
    unfolding DeleteItemsByUser
    by (rule subset_remembered(1)[OF _ _ a])
      (simp_all add: deleteItemsByUser_mongo_def deleteMany_def)
qed

lemma step_mongo_used:
  assumes w: "wellFormed c" and cl: "cleanSamples op" and nm: "op \<noteq> MarkAllItemsAsUsed"
    and a: "usedAsRemembered c h"
  shows "usedAsRemembered (step_mongo n op c) (remember op c (selected_mongo op c) h)"
proof (cases op)
  case (GetItem u sd r now)
  let ?c1 = "seeded c sd"
  let ?h1 = "remember (InitializeCollections sd now) c (None :: 'a item option) h"
  from cl have clean: "list_all (\<lambda>b. used b = False \<and> assignedTo b = None) sd"
    by (simp add: GetItem)
  have a1: "usedAsRemembered ?c1 ?h1" using a by (rule init_mongo_assigned(2)[OF clean])
  from w have d1: "distinct (map itemId (docs ?c1))"
    using wf_seeded[of c sd] by (simp add: wellFormed_def)
  note hist2 = getItem_mongo_history(2)[OF w, where u = u and sd = sd and r = r and now = now
      and h = h and n = n]
  from hist2 show ?thesis
    unfolding GetItem selected_mongo.simps
  proof (elim disjE conjE exE)
    assume e: "docs (step_mongo n (GetItem u sd r now) c) = docs ?c1"
      and ae: "assigner (remember (GetItem u sd r now) c (selectedItem_mongo c u sd r) h) =
           assigner ?h1"
    from e have "set (docs (step_mongo n (GetItem u sd r now) c)) \<subseteq> set (docs ?c1)"
      by simp
    from subset_remembered(2)[OF this ae a1]
    show "usedAsRemembered (step_mongo n (GetItem u sd r now) c)
        (remember (GetItem u sd r now) c (selectedItem_mongo c u sd r) h)" .
  next
    fix k assume "k < length (docs ?c1)"
      and "docs (step_mongo n (GetItem u sd r now) c) = (docs ?c1)[k := assign u (docs ?c1 ! k)]"
      and "assigner (remember (GetItem u sd r now) c (selectedItem_mongo c u sd r) h) =
           (assigner ?h1)(itemId (docs ?c1 ! k) \<mapsto> u)"
    then show "usedAsRemembered (step_mongo n (GetItem u sd r now) c)
        (remember (GetItem u sd r now) c (selectedItem_mongo c u sd r) h)"
      using hit_used[OF d1 _ a1] by blast
  next
    fix k assume "k < length (docs ?c1)"
      and "docs (step_mongo n (GetItem u sd r now) c) =
           (map unassign (docs ?c1))[k := assign u (docs ?c1 ! k)]"
      and "assigner (remember (GetItem u sd r now) c (selectedItem_mongo c u sd r) h) =
           (assigner ?h1)(itemId (docs ?c1 ! k) \<mapsto> u)"
    then show "usedAsRemembered (step_mongo n (GetItem u sd r now) c)
        (remember (GetItem u sd r now) c (selectedItem_mongo c u sd r) h)"
      using reset_remembered(2) by blast
  qed
next
  case (CreateItems u items now)
  show ?thesis
    unfolding CreateItems step_mongo.simps createItems_mongo_snd
    by (rule insert_used[OF _ a, where m = "nextId c"
          and bs = "map (\<lambda>item. \<lparr>data = item, used = False,
            assignedTo = None, createdBy = Some u, createdAt = Some now\<rparr>) items"])
      (simp_all add: list_all_iff)
next
  case (InitializeCollections sd now)
  from cl have clean: "list_all (\<lambda>b. used b = False \<and> assignedTo b = None) sd"
    by (simp add: InitializeCollections)
  from init_mongo_assigned(2)[OF clean a] show ?thesis
    by (simp add: InitializeCollections remember_def)
next
  case MarkAllItemsAsUsed
  with nm show ?thesis by simp
next
  case (DeleteItemsByUser u)
  show ?thesis
    unfolding DeleteItemsByUser
    by (rule subset_remembered(2)[OF _ _ a])
      (simp_all add: deleteItemsByUser_mongo_def deleteMany_def)
qed

text \<open>Along a history.\<close>

lemma run_mongo_invariants:
  assumes "wellFormed c"
  shows "wellFormed (fst (run_mongo n ops (c, h)))"
    and "payloadsAsInserted c h \<Longrightarrow>
         payloadsAsInserted (fst (run_mongo n ops (c, h))) (snd (run_mongo n ops (c, h)))"
    and "list_all cleanSamples ops \<Longrightarrow> assignedAsRemembered c h \<Longrightarrow>
         assignedAsRemembered (fst (run_mongo n ops (c, h))) (snd (run_mongo n ops (c, h)))"
    and "list_all cleanSamples ops \<Longrightarrow> MarkAllItemsAsUsed \<notin> set ops \<Longrightarrow>
         usedAsRemembered c h \<Longrightarrow>
         usedAsRemembered (fst (run_mongo n ops (c, h))) (snd (run_mongo n ops (c, h)))"
  using assms
proof (induction ops arbitrary: c h)
  case Nil
  {
    case 1 then show ?case by simp
  next
    case 2 then show ?case by simp
  next
    case 3 then show ?case by simp
  next
    case 4 then show ?case by simp
  }
next
  case (Cons op ops)
  {
    case 1
    from Cons.IH(1)[OF step_mongo_wf[OF 1]] show ?case by simp
  next
    case 2
    from Cons.IH(2)[OF step_mongo_payloads[OF 2(2,1)] step_mongo_wf[OF 2(2)]]
    show ?case by simp
  next
    case 3
    from 3(1) have c: "cleanSamples op" and cs: "list_all cleanSamples ops" by simp_all
    from Cons.IH(3)[OF cs step_mongo_assigned[OF 3(3) c 3(2)] step_mongo_wf[OF 3(3)]]
    show ?case by simp
  next
    case 4
    from 4(1) have c: "cleanSamples op" and cs: "list_all cleanSamples ops" by simp_all
    from 4(2) have nm: "op \<noteq> MarkAllItemsAsUsed" and nms: "MarkAllItemsAsUsed \<notin> set ops"
      by auto
    from Cons.IH(4)[OF cs nms step_mongo_used[OF 4(4) c nm 4(3)] step_mongo_wf[OF 4(4)]]
    show ?case by simp
  }
qed

section \<open>The SQLite branches as the MongoDB branches on JSON text\<close>

lemma createItems_sqlite_loop_eq:
  "createItems_sqlite_loop S u now items (results, t) =
     (results @ map itemId (insertFrom (nextId t)
        (map (\<lambda>item. \<lparr>data = S item, used = False, assignedTo = None,
                         createdBy = Some u, createdAt = Some now\<rparr>) items)),
      appended t (map (\<lambda>item. \<lparr>data = S item, used = False, assignedTo = None,
                                  createdBy = Some u, createdAt = Some now\<rparr>) items))"
proof (induction items arbitrary: results t)
  case Nil
  show ?case by simp
next
  case (Cons item items)
  have row: "insertRow t (S item) False (Some u) now =
      appended t [\<lparr>data = S item, used = False, assignedTo = None,
                      createdBy = Some u, createdAt = Some now\<rparr>]"
    by (rule insertRow_appended)
  have next_id: "nextId (appended t [b]) = Suc (nextId t)" for b
    by (simp add: appended_def)
  show ?case
    by (simp add: Cons.IH row appended_Cons next_id)
qed

lemma createItems_sqlite_mongo:
  "snd (createItems_sqlite S t u items now) = snd (createItems_mongo t u (map S items) now)"
  by (simp add: createItems_sqlite_def createItems_mongo_snd createItems_sqlite_loop_eq
      comp_def)

lemma getItem_sqlite_mongo_snd:
  "wellFormed t \<Longrightarrow>
   snd (getItemFromCollection_sqlite S P t n u sd r now) =
   snd (getItemFromCollection_mongo t n u (map (sqlSeed S now) sd) r)"
  by (simp add: getItem_sqlite_mongo case_prod_beta split: sum.splits)

lemma step_sqlite_mongo:
  "wellFormed t \<Longrightarrow> step_sqlite S P n op t = step_mongo n (encodeOperation S op) t"
proof (cases op)
  case (GetItem u sd r now)
  assume "wellFormed t"
  from getItem_sqlite_mongo_snd[OF this, of S P n u sd r now] show ?thesis
    by (simp add: GetItem)
next
  case (CreateItems u items now)
  show ?thesis
    by (simp add: CreateItems createItems_sqlite_mongo)
next
  case (InitializeCollections sd now)
  show ?thesis
    by (simp add: InitializeCollections init_sqlite_seeded)
next
  case MarkAllItemsAsUsed
  show ?thesis
    by (simp add: MarkAllItemsAsUsed markAllItemsAsUsed_sqlite_def markAllItemsAsUsed_mongo_def)
next
  case (DeleteItemsByUser u)
  show ?thesis
    by (simp add: DeleteItemsByUser deleteItemsByUser_sqlite_def deleteItemsByUser_mongo_def)
qed

lemma selectedItem_sqlite_mongo:
  "selectedItem_sqlite S t u sd r now = selectedItem_mongo t u (map (sqlSeed S now) sd) r"
proof -
  define t1 where "t1 = seeded t (map (sqlSeed S now) sd)"
  have cand: "(\<lambda>row. used row = False \<and> (assignedTo row = None \<or> assignedTo row \<noteq> Some u)) =
      (\<lambda>d. used d = False \<and> assignedTo d \<noteq> Some u)"
    by auto
  have st: "(if countDocuments t = 0
             then foldl (\<lambda>t item. insertRow t (S (data item)) False None now) t sd else t) = t1"
    by (simp add: t1_def seeded_def sqlite_seed_fold)
  show ?thesis
  proof (cases "docs t = [] \<and> sd = []")
    case True
    then have "t1 = t" by (simp add: t1_def)
    with True show ?thesis
      unfolding selectedItem_sqlite_def Let_def st
      by (simp add: selectedItem_mongo_none selectRandom_def updateMany_def)
  next
    case False
    then have sm: "(if countDocuments t = 0 then insertMany t (map (sqlSeed S now) sd) else Inr t) =
        Inr t1"
      by (simp add: seeding t1_def)
    show ?thesis
      unfolding selectedItem_sqlite_def selectedItem_mongo_def Let_def st sm cand
        selectRandom_def find_docs_def
      by simp
  qed
qed

lemma selected_sqlite_mongo:
  "selected_sqlite S op t = selected_mongo (encodeOperation S op) t"
  by (cases op) (simp_all add: selectedItem_sqlite_mongo)

lemma insertedPayloads_encode:
  "insertedPayloads (encodeOperation S op) t = map S (insertedPayloads op t)"
  by (cases op) (simp_all add: comp_def sqlSeed_def)

lemma recordInserted_map:
  "recordInserted n (map S ps) (\<lambda>i. map_option S (f i)) =
   (\<lambda>i. map_option S (recordInserted n ps f i))"
  by (rule ext) (auto simp: recordInserted_def)

lemma recordAssigned_encode:
  "recordAssigned (encodeOperation S op) sel a = recordAssigned op sel a"
  by (cases op; cases sel) simp_all

lemma remember_encode:
  "encodeHistory S (remember op t sel h) =
   remember (encodeOperation S op) t sel (encodeHistory S h)"
  by (simp add: encodeHistory_def remember_def insertedPayloads_encode recordInserted_map
      recordAssigned_encode)

lemma cleanSamples_encode: "cleanSamples (encodeOperation S op)"
  by (cases op) (simp_all add: list_all_iff sqlSeed_def)

lemma run_sqlite_mongo:
  "wellFormed t \<Longrightarrow>
   run_mongo n (map (encodeOperation S) ops) (t, encodeHistory S h) =
     (fst (run_sqlite S P n ops (t, h)), encodeHistory S (snd (run_sqlite S P n ops (t, h))))"
proof (induction ops arbitrary: t h)
  case Nil
  show ?case by simp
next
  case (Cons op ops)
  from Cons.prems have w': "wellFormed (step_mongo n (encodeOperation S op) t)"
    by (rule step_mongo_wf)
  from Cons.prems have st: "step_sqlite S P n op t = step_mongo n (encodeOperation S op) t"
    by (rule step_sqlite_mongo)
  show ?case
    using Cons.IH[OF w', of "remember op t (selected_sqlite S op t) h"]
    by (simp add: st remember_encode selected_sqlite_mongo)
qed

section \<open>Payloads\<close>


lemma empty_invariants:
  "wellFormed \<lparr>docs = [], nextId = first\<rparr>"
  "payloadsAsInserted \<lparr>docs = [], nextId = first\<rparr> h"
  "assignedAsRemembered \<lparr>docs = [], nextId = first\<rparr> h"
  "usedAsRemembered \<lparr>docs = [], nextId = first\<rparr> h"
  by (simp_all add: wellFormed_def payloadsAsInserted_def assignedAsRemembered_def
      usedAsRemembered_def)

lemma encodeHistory_noHistory [simp]: "encodeHistory S noHistory = noHistory"
  by (simp add: encodeHistory_def noHistory_def)







section \<open>Used and assigned\<close>

text \<open>
  Claim C5, as stated, fails: \<^verbatim>\<open>markAllItemsAsUsed\<close> sets \<^verbatim>\<open>used\<close> and leaves
  \<^verbatim>\<open>assignedTo\<close> as it is. After \<^verbatim>\<open>createItems\<close> by bob and \<^verbatim>\<open>markAllItemsAsUsed\<close> the item
  is used, assigned to nobody, and no acquire call has assigned it.
\<close>

theorem markAllItemsAsUsed_counterexample:
  "fst (run_mongo ''events'' [CreateItems ''bob'' [''x''] 5, MarkAllItemsAsUsed]
          (\<lparr>docs = [], nextId = 1\<rparr>, noHistory)) =
     \<lparr>docs = [\<lparr>data = ''x'', used = True, assignedTo = None, createdBy = Some ''bob'',
               createdAt = Some 5, itemId = 1\<rparr>],
      nextId = 2\<rparr> \<and>
   fst (run_sqlite (\<lambda>p. p) (\<lambda>s. s) ''events'' [CreateItems ''bob'' [''x''] 5, MarkAllItemsAsUsed]
          (\<lparr>docs = [], nextId = 1\<rparr>, noHistory)) =
     \<lparr>docs = [\<lparr>data = ''x'', used = True, assignedTo = None, createdBy = Some ''bob'',
               createdAt = Some 5, itemId = 1\<rparr>],
      nextId = 2\<rparr> \<and>
   assigner (snd (run_mongo ''events'' [CreateItems ''bob'' [''x''] 5, MarkAllItemsAsUsed]
                    (\<lparr>docs = [], nextId = 1\<rparr>, noHistory))) 1 = None \<and>
   \<not> usedAsRemembered
       (fst (run_mongo ''events'' [CreateItems ''bob'' [''x''] 5, MarkAllItemsAsUsed]
               (\<lparr>docs = [], nextId = 1\<rparr>, noHistory)))
       (snd (run_mongo ''events'' [CreateItems ''bob'' [''x''] 5, MarkAllItemsAsUsed]
               (\<lparr>docs = [], nextId = 1\<rparr>, noHistory)))"
  by (simp add: createItems_mongo_def createItems_sqlite_def insertMany_def appended_def
      insertRow_def
      stored_def markAllItemsAsUsed_mongo_def markAllItemsAsUsed_sqlite_def updateMany_def
      usedAsRemembered_def remember_def noHistory_def)

text \<open>
  Claim C5, amended. Along every history of operations on a collection that started
  empty, with sample data whose items are unused and unassigned (the SQLite seeding writes
  them so whatever the sample data say): an item with \<^verbatim>\<open>assignedTo\<close> set is used, and
  \<^verbatim>\<open>assignedTo\<close> is the user of the last acquire call that selected it; and as long as the
  history holds no \<^verbatim>\<open>markAllItemsAsUsed\<close>, every used item has \<^verbatim>\<open>assignedTo\<close> set, to that
  user. (The acquire operation of the first revision is the MongoDB branch with the first
  candidate, the draw 0.)
\<close>

theorem used_items_are_assigned_by_acquire:
  "(list_all cleanSamples ops \<longrightarrow>
      (case run_mongo name ops (\<lparr>docs = [], nextId = first\<rparr>, noHistory) of
         (c, h) \<Rightarrow>
           (\<forall>d\<in>set (docs c). \<forall>u. assignedTo d = Some u \<longrightarrow>
              used d \<and> assigner h (itemId d) = Some u) \<and>
           (MarkAllItemsAsUsed \<notin> set ops \<longrightarrow>
              (\<forall>d\<in>set (docs c). used d \<longrightarrow>
                 (\<exists>u. assignedTo d = Some u \<and> assigner h (itemId d) = Some u))))) \<and>
   (case run_sqlite JSON_stringify JSON_parse name ops (\<lparr>docs = [], nextId = first\<rparr>, noHistory) of
      (t, h) \<Rightarrow>
        (\<forall>row\<in>set (docs t). \<forall>u. assignedTo row = Some u \<longrightarrow>
           used row \<and> assigner h (itemId row) = Some u) \<and>
        (MarkAllItemsAsUsed \<notin> set ops \<longrightarrow>
           (\<forall>row\<in>set (docs t). used row \<longrightarrow>
              (\<exists>u. assignedTo row = Some u \<and> assigner h (itemId row) = Some u)))) \<and>
   getItemFromCollection_v1 c1 name userId sampleData =
     getItemFromCollection_mongo c1 name userId sampleData 0"
proof (intro conjI impI)
  let ?e = "\<lparr>docs = [], nextId = first\<rparr>"
  have w0: "wellFormed ?e" by (rule empty_invariants)
  {
    assume cl: "list_all cleanSamples ops"
    have a0: "assignedAsRemembered ?e (noHistory :: 'a history)" by (rule empty_invariants)
    have u0: "usedAsRemembered ?e (noHistory :: 'a history)" by (rule empty_invariants)
    note a = run_mongo_invariants(3)[OF w0 cl a0, where n = name]
    have u: "MarkAllItemsAsUsed \<notin> set ops \<Longrightarrow>
        usedAsRemembered (fst (run_mongo name ops (?e, noHistory)))
          (snd (run_mongo name ops (?e, noHistory)))"
      by (rule run_mongo_invariants(4)[OF w0 cl _ u0])
    from a u show "case run_mongo name ops (?e, noHistory) of
         (c, h) \<Rightarrow>
           (\<forall>d\<in>set (docs c). \<forall>u. assignedTo d = Some u \<longrightarrow>
              used d \<and> assigner h (itemId d) = Some u) \<and>
           (MarkAllItemsAsUsed \<notin> set ops \<longrightarrow>
              (\<forall>d\<in>set (docs c). used d \<longrightarrow>
                 (\<exists>u. assignedTo d = Some u \<and> assigner h (itemId d) = Some u)))"
      unfolding case_prod_beta assignedAsRemembered_def usedAsRemembered_def by blast
  }
  let ?ops = "map (encodeOperation JSON_stringify) ops"
  let ?t = "fst (run_sqlite JSON_stringify JSON_parse name ops (?e, noHistory))"
  let ?h = "snd (run_sqlite JSON_stringify JSON_parse name ops (?e, noHistory))"
  have run: "run_mongo name ?ops (?e, noHistory) = (?t, encodeHistory JSON_stringify ?h)"
    using run_sqlite_mongo[OF w0, where n = name and S = JSON_stringify and ops = ops
        and h = noHistory and P = JSON_parse]
    by simp
  have cl: "list_all cleanSamples ?ops"
    by (simp add: list_all_iff cleanSamples_encode)
  have enc: "assigner (encodeHistory JSON_stringify ?h) = assigner ?h"
    by (simp add: encodeHistory_def)
  from run_mongo_invariants(3)[OF w0 cl empty_invariants(3), where n = name
      and h = "encodeHistory JSON_stringify noHistory"]
  have a: "assignedAsRemembered ?t ?h"
    by (simp add: run assignedAsRemembered_def enc)
  have u: "usedAsRemembered ?t ?h" if "MarkAllItemsAsUsed \<notin> set ops"
  proof -
    from that have "MarkAllItemsAsUsed \<notin> set ?ops"
    proof (induction ops)
      case Nil
      show ?case by simp
    next
      case (Cons op ops)
      then show ?case by (cases op) auto
    qed
    from run_mongo_invariants(4)[OF w0 cl this empty_invariants(4), where n = name
        and h = "encodeHistory JSON_stringify noHistory"]
    show ?thesis
      by (simp add: run usedAsRemembered_def enc)
  qed
  from a u show "case run_sqlite JSON_stringify JSON_parse name ops (?e, noHistory) of
      (t, h) \<Rightarrow>
        (\<forall>row\<in>set (docs t). \<forall>u. assignedTo row = Some u \<longrightarrow>
           used row \<and> assigner h (itemId row) = Some u) \<and>
        (MarkAllItemsAsUsed \<notin> set ops \<longrightarrow>
           (\<forall>row\<in>set (docs t). used row \<longrightarrow>
              (\<exists>u. assignedTo row = Some u \<and> assigner h (itemId row) = Some u)))"
    unfolding case_prod_beta assignedAsRemembered_def usedAsRemembered_def by blast
  show "getItemFromCollection_v1 c1 name userId sampleData =
     getItemFromCollection_mongo c1 name userId sampleData 0"
    by (rule getItem_v1_mongo)
qed

theorem used_items_are_assigned_by_acquire_witness:
  "list_all cleanSamples
     [GetItem ''alice'' sampleEvents 1 0, CreateItems ''bob'' [''x''] 1,
      GetItem ''bob'' sampleEvents 0 2] \<and>
   (case run_mongo ''events''
           [GetItem ''alice'' sampleEvents 1 0, CreateItems ''bob'' [''x''] 1,
            GetItem ''bob'' sampleEvents 0 2]
           (\<lparr>docs = [], nextId = 1\<rparr>, noHistory) of
      (c, h) \<Rightarrow>
        map (\<lambda>d. (itemId d, used d, assignedTo d, assigner h (itemId d))) (docs c) =
          [(1, True, Some ''bob'', Some ''bob''), (2, True, Some ''alice'', Some ''alice''),
           (3, False, None, None), (4, False, None, None)]) \<and>
   (case run_sqlite (\<lambda>p. p) (\<lambda>s. s) ''events''
           [GetItem ''alice'' sampleEvents 1 0, CreateItems ''bob'' [''x''] 1,
            GetItem ''bob'' sampleEvents 0 2]
           (\<lparr>docs = [], nextId = 1\<rparr>, noHistory) of
      (t, h) \<Rightarrow>
        map (\<lambda>d. (itemId d, used d, assignedTo d, assigner h (itemId d))) (docs t) =
          [(1, True, Some ''bob'', Some ''bob''), (2, True, Some ''alice'', Some ''alice''),
           (3, False, None, None), (4, False, None, None)]) \<and>
   usedAsRemembered
     (fst (run_mongo ''events''
             [GetItem ''alice'' sampleEvents 1 0, CreateItems ''bob'' [''x''] 1,
              GetItem ''bob'' sampleEvents 0 2]
             (\<lparr>docs = [], nextId = 1\<rparr>, noHistory)))
     (snd (run_mongo ''events''
             [GetItem ''alice'' sampleEvents 1 0, CreateItems ''bob'' [''x''] 1,
              GetItem ''bob'' sampleEvents 0 2]
             (\<lparr>docs = [], nextId = 1\<rparr>, noHistory)))"
proof -
  note w = used_items_are_assigned_by_acquire[where name = "''events''" and first = 1
      and ops = "[GetItem ''alice'' sampleEvents 1 0, CreateItems ''bob'' [''x''] 1,
                  GetItem ''bob'' sampleEvents 0 2]"
      and JSON_stringify = "\<lambda>p. p" and JSON_parse = "\<lambda>s. s"]
  have cl: "list_all cleanSamples
     [GetItem ''alice'' sampleEvents 1 0, CreateItems ''bob'' [''x''] 1,
      GetItem ''bob'' sampleEvents 0 2]"
    by (simp add: sampleEvents_def)
  have m: "case run_mongo ''events''
           [GetItem ''alice'' sampleEvents 1 0, CreateItems ''bob'' [''x''] 1,
            GetItem ''bob'' sampleEvents 0 2]
           (\<lparr>docs = [], nextId = 1\<rparr>, noHistory) of
      (c, h) \<Rightarrow>
        map (\<lambda>d. (itemId d, used d, assignedTo d, assigner h (itemId d))) (docs c) =
          [(1, True, Some ''bob'', Some ''bob''), (2, True, Some ''alice'', Some ''alice''),
           (3, False, None, None), (4, False, None, None)]"
    by (simp add: sampleEvents_def getItemFromCollection_mongo_def selectedItem_mongo_def
        createItems_mongo_def countDocuments_def insertMany_def appended_def stored_def
        find_docs_def
        randomIndex_def updateOne_def remember_def noHistory_def)
  have s: "case run_sqlite (\<lambda>p. p) (\<lambda>s. s) ''events''
           [GetItem ''alice'' sampleEvents 1 0, CreateItems ''bob'' [''x''] 1,
            GetItem ''bob'' sampleEvents 0 2]
           (\<lparr>docs = [], nextId = 1\<rparr>, noHistory) of
      (t, h) \<Rightarrow>
        map (\<lambda>d. (itemId d, used d, assignedTo d, assigner h (itemId d))) (docs t) =
          [(1, True, Some ''bob'', Some ''bob''), (2, True, Some ''alice'', Some ''alice''),
           (3, False, None, None), (4, False, None, None)]"
    by (simp add: sampleEvents_def getItemFromCollection_sqlite_def selectedItem_sqlite_def
        createItems_sqlite_def countDocuments_def insertRow_def selectRandom_def
        randomIndex_def updateMany_def remember_def noHistory_def)
  have nm: "MarkAllItemsAsUsed \<notin> set
     [GetItem ''alice'' sampleEvents 1 0, CreateItems ''bob'' [''x''] 1,
      GetItem ''bob'' sampleEvents 0 2]"
    by simp
  from w[THEN conjunct1, rule_format, OF cl] nm
  have u: "usedAsRemembered
     (fst (run_mongo ''events''
             [GetItem ''alice'' sampleEvents 1 0, CreateItems ''bob'' [''x''] 1,
              GetItem ''bob'' sampleEvents 0 2]
             (\<lparr>docs = [], nextId = 1\<rparr>, noHistory)))
     (snd (run_mongo ''events''
             [GetItem ''alice'' sampleEvents 1 0, CreateItems ''bob'' [''x''] 1,
              GetItem ''bob'' sampleEvents 0 2]
             (\<lparr>docs = [], nextId = 1\<rparr>, noHistory)))"
    unfolding case_prod_beta usedAsRemembered_def by blast
  from m s cl u show ?thesis by blast
qed

end
